theory Spec2Isabelle
  imports Complex_Main "HOL-Library.Word" "HOL-Library.Multiset"
begin

section \<open>Data model\<close>

text \<open>
  The collage pipeline of \<^verbatim>\<open>src/collage.py\<close>: \<^verbatim>\<open>normalize_posters\<close>,
  \<^verbatim>\<open>resize_width_w_constant_aspect\<close> and \<^verbatim>\<open>arrange_images\<close>.

  Python integers are \<open>int\<close> (times) and \<open>nat\<close> (pixel counts, which PIL keeps
  non-negative and below \<open>2 ^ 31\<close>). Python and numpy floats are IEEE binary64 numbers,
  modelled by the type \<open>double\<close> below with every operation rounded to nearest, ties to
  even.

  A pixel is three \<^verbatim>\<open>uint8\<close> channels. A PIL image is its \<^verbatim>\<open>size\<close>, which is
  \<open>(width, height)\<close>, and its pixel buffer read as \<^verbatim>\<open>np.asarray\<close> does: row first,
  column second.
\<close>

type_synonym rgb = "8 word \<times> 8 word \<times> 8 word"

record image =
  img_size :: "nat \<times> nat"
  pixels :: "nat \<Rightarrow> nat \<Rightarrow> rgb"

datatype error = ValueError | ZeroDivisionError | OverflowError

text \<open>
  The resampling filter of \<^verbatim>\<open>Image.resize\<close> (\<^verbatim>\<open>Image.ANTIALIAS\<close>) belongs to PIL:
  it is a parameter, giving the pixel buffer of the resized image from the requested size
  and the source image.
\<close>

type_synonym resample = "nat \<times> nat \<Rightarrow> image \<Rightarrow> nat \<Rightarrow> nat \<Rightarrow> rgb"

definition resize :: "resample \<Rightarrow> nat \<times> nat \<Rightarrow> image \<Rightarrow> image" where
  "resize filt sz img = \<lparr>img_size = sz, pixels = filt sz img\<rparr>"

text \<open>Python's \<^verbatim>\<open>max\<close> of an iterable raises \<^verbatim>\<open>ValueError\<close> on an empty one.\<close>

fun py_max :: "'a::linorder list \<Rightarrow> error + 'a" where
  "py_max [] = Inl ValueError"
| "py_max (x # xs) = Inr (fold max xs x)"

section \<open>Double-precision arithmetic\<close>

text \<open>
  A double is a finite value, an infinity or not-a-number. A finite double is carried as
  the real number it denotes; the two zeros are one value, which changes no result here:
  the only divisors are image sizes converted from non-negative integers, and comparisons
  and \<^verbatim>\<open>int\<close> do not see the sign of a zero.
\<close>

datatype double = Finite real | PInf | NInf | NaN

text \<open>Rounding to the nearest integer, a tie going to the even neighbour.\<close>

definition round_half_even :: "real \<Rightarrow> int" where
  "round_half_even x =
     (let f = \<lfloor>x\<rfloor>; d = x - of_int f
      in if d < 1 / 2 then f else if 1 / 2 < d then f + 1 else if even f then f else f + 1)"

text \<open>
  Rounding of an exact real result to binary64. With \<open>e\<close> the binary exponent of \<open>x\<close>,
  the result is a multiple of \<open>2 ^ (e - 52)\<close>, the spacing of the 53-bit significands at
  that exponent, and of \<open>2 ^ (- 1074)\<close> in the subnormal range. A rounded value of
  magnitude \<open>2 ^ 1024\<close> or more overflows to an infinity.
\<close>

definition overflow_threshold :: real where
  "overflow_threshold = 2 ^ 1024"

definition round_double :: "real \<Rightarrow> double" where
  "round_double x =
     (if x = 0 then Finite 0
      else
        let e = \<lfloor>log 2 \<bar>x\<bar>\<rfloor>;
            q = 2 powr of_int (max (e - 52) (- 1074));
            y = of_int (round_half_even (x / q)) * q
        in if overflow_threshold \<le> \<bar>y\<bar> then (if 0 < x then PInf else NInf) else Finite y)"

text \<open>The conversion of an image size to a double, exact below \<open>2 ^ 53\<close>.\<close>

definition float_of_nat :: "nat \<Rightarrow> double" where
  "float_of_nat n = round_double (real n)"

text \<open>Product and quotient of doubles, with the IEEE results on infinities and zeros.\<close>

fun fmul :: "double \<Rightarrow> double \<Rightarrow> double" where
  "fmul (Finite a) (Finite b) = round_double (a * b)"
| "fmul NaN _ = NaN"
| "fmul _ NaN = NaN"
| "fmul (Finite a) PInf = (if a = 0 then NaN else if 0 < a then PInf else NInf)"
| "fmul (Finite a) NInf = (if a = 0 then NaN else if 0 < a then NInf else PInf)"
| "fmul PInf (Finite b) = (if b = 0 then NaN else if 0 < b then PInf else NInf)"
| "fmul NInf (Finite b) = (if b = 0 then NaN else if 0 < b then NInf else PInf)"
| "fmul PInf PInf = PInf"
| "fmul PInf NInf = NInf"
| "fmul NInf PInf = NInf"
| "fmul NInf NInf = PInf"

fun fdiv :: "double \<Rightarrow> double \<Rightarrow> double" where
  "fdiv (Finite a) (Finite b) =
     (if b = 0 then (if a = 0 then NaN else if 0 < a then PInf else NInf)
      else round_double (a / b))"
| "fdiv NaN _ = NaN"
| "fdiv _ NaN = NaN"
| "fdiv (Finite a) PInf = Finite 0"
| "fdiv (Finite a) NInf = Finite 0"
| "fdiv PInf (Finite b) = (if 0 \<le> b then PInf else NInf)"
| "fdiv NInf (Finite b) = (if 0 \<le> b then NInf else PInf)"
| "fdiv PInf PInf = NaN"
| "fdiv PInf NInf = NaN"
| "fdiv NInf PInf = NaN"
| "fdiv NInf NInf = NaN"

text \<open>\<^verbatim>\<open>np.sqrt\<close>: not-a-number below zero, the rounded square root otherwise.\<close>

fun np_sqrt :: "double \<Rightarrow> double" where
  "np_sqrt (Finite x) = (if x < 0 then NaN else round_double (sqrt x))"
| "np_sqrt PInf = PInf"
| "np_sqrt NInf = NaN"
| "np_sqrt NaN = NaN"

text \<open>The comparison \<^verbatim>\<open>x >= 1\<close>, false on not-a-number.\<close>

fun ge_one :: "double \<Rightarrow> bool" where
  "ge_one (Finite x) = (1 \<le> x)"
| "ge_one PInf = True"
| "ge_one NInf = False"
| "ge_one NaN = False"

text \<open>
  \<^verbatim>\<open>int(x)\<close> of a float truncates towards zero; it raises \<^verbatim>\<open>OverflowError\<close> on an
  infinity and \<^verbatim>\<open>ValueError\<close> on not-a-number.
\<close>

fun py_int :: "double \<Rightarrow> error + int" where
  "py_int (Finite x) = Inr (if 0 \<le> x then \<lfloor>x\<rfloor> else \<lceil>x\<rceil>)"
| "py_int PInf = Inl OverflowError"
| "py_int NInf = Inl OverflowError"
| "py_int NaN = Inl ValueError"

text \<open>
  Python's \<^verbatim>\<open>a / b\<close> on integers: \<^verbatim>\<open>ZeroDivisionError\<close> on a zero divisor, the
  correctly rounded quotient otherwise, and \<^verbatim>\<open>OverflowError\<close> when the quotient is too
  large for a float.
\<close>

definition py_truediv :: "int \<Rightarrow> int \<Rightarrow> error + double" where
  "py_truediv a b =
     (if b = 0 then Inl ZeroDivisionError
      else case round_double (real_of_int a / real_of_int b) of
             Finite q \<Rightarrow> Inr (Finite q)
           | _ \<Rightarrow> Inl OverflowError)"

section \<open>Poster normalizer\<close>

text \<open>
  The two local variables of \<^verbatim>\<open>resize_width_w_constant_aspect\<close>:
  \<^verbatim>\<open>width = np.sqrt(ratio) * img.size[0]\<close> and
  \<^verbatim>\<open>height = width * img.size[0] / img.size[1]\<close>, each operation rounded.
\<close>

definition width_of :: "double \<Rightarrow> image \<Rightarrow> double" where
  "width_of ratio img = fmul (np_sqrt ratio) (float_of_nat (fst (img_size img)))"

definition height_of :: "double \<Rightarrow> image \<Rightarrow> double" where
  "height_of ratio img =
     fdiv (fmul (width_of ratio img) (float_of_nat (fst (img_size img))))
          (float_of_nat (snd (img_size img)))"

text \<open>
  \<^verbatim>\<open>img.resize(map(int, (height, width)), Image.ANTIALIAS)\<close> when
  \<^verbatim>\<open>height >= 1 and width >= 1\<close>, else \<^verbatim>\<open>None\<close>. The first component handed to
  \<^verbatim>\<open>resize\<close> is the new PIL width, the second the new PIL height; \<^verbatim>\<open>int(height)\<close>
  is evaluated first.
\<close>

definition resize_width_w_constant_aspect ::
    "resample \<Rightarrow> double \<Rightarrow> image \<Rightarrow> error + image option" where
  "resize_width_w_constant_aspect filt ratio img =
     (let width = width_of ratio img;
          height = height_of ratio img
      in if ge_one height \<and> ge_one width
         then (case py_int height of
                 Inl e \<Rightarrow> Inl e
               | Inr h \<Rightarrow>
                   (case py_int width of
                      Inl e \<Rightarrow> Inl e
                    | Inr w \<Rightarrow> Inr (Some (resize filt (nat h, nat w) img))))
         else Inr None)"

text \<open>
  The body of the loop of \<^verbatim>\<open>normalize_posters\<close>: the ratio of one poster, the product
  of two Python divisions of integers.
\<close>

definition poster_ratio :: "nat \<Rightarrow> int \<Rightarrow> int \<times> image \<Rightarrow> error + double" where
  "poster_ratio max_area max_time p =
     (case p of (time, img) \<Rightarrow>
        (case py_truediv (int max_area) (int (fst (img_size img) * snd (img_size img))) of
           Inl e \<Rightarrow> Inl e
         | Inr area_norm_ratio \<Rightarrow>
             (case py_truediv time max_time of
                Inl e \<Rightarrow> Inl e
              | Inr time_norm_ratio \<Rightarrow> Inr (fmul area_norm_ratio time_norm_ratio))))"

fun normalize_loop ::
    "resample \<Rightarrow> nat \<Rightarrow> int \<Rightarrow> (int \<times> image) list \<Rightarrow> image list \<Rightarrow> error + image list" where
  "normalize_loop filt max_area max_time [] normalized_posters = Inr normalized_posters"
| "normalize_loop filt max_area max_time (p # rest) normalized_posters =
     (case poster_ratio max_area max_time p of
        Inl e \<Rightarrow> Inl e
      | Inr ratio \<Rightarrow>
          (case resize_width_w_constant_aspect filt ratio (snd p) of
             Inl e \<Rightarrow> Inl e
           | Inr None \<Rightarrow> normalize_loop filt max_area max_time rest normalized_posters
           | Inr (Some img) \<Rightarrow>
               normalize_loop filt max_area max_time rest (normalized_posters @ [img])))"

definition normalize_posters :: "resample \<Rightarrow> (int \<times> image) list \<Rightarrow> error + image list" where
  "normalize_posters filt time_posters =
     (case py_max (map fst time_posters) of
        Inl e \<Rightarrow> Inl e
      | Inr max_time \<Rightarrow>
          (case py_max (map (\<lambda>(_, x). fst (img_size x) * snd (img_size x)) time_posters) of
             Inl e \<Rightarrow> Inl e
           | Inr max_area \<Rightarrow> normalize_loop filt max_area max_time time_posters []))"

text \<open>
  What the normalizer is to produce for one poster, in the words of the specification: no
  rectangle when a computed dimension is below one pixel, one rectangle of the truncated
  dimensions otherwise. The dimensions are the two doubles the code computes.
\<close>

definition poster_rectangles ::
    "resample \<Rightarrow> nat \<Rightarrow> int \<Rightarrow> int \<times> image \<Rightarrow> image list" where
  "poster_rectangles filt max_area max_time p =
     (case poster_ratio max_area max_time p of
        Inl e \<Rightarrow> []
      | Inr ratio \<Rightarrow>
          (case (width_of ratio (snd p), height_of ratio (snd p)) of
             (Finite w, Finite h) \<Rightarrow>
               if w < 1 \<or> h < 1 then []
               else [resize filt (nat \<lfloor>h\<rfloor>, nat \<lfloor>w\<rfloor>) (snd p)]
           | _ \<Rightarrow> []))"



section \<open>Canvas compositor and deadspace diffuser\<close>

text \<open>
  A numpy array of shape \<open>(rows, cols, 3)\<close> is its two leading dimensions and the value
  at each \<open>(row, column)\<close>. The canvas holds an \<open>rgb\<close> triple per position. The
  \<^verbatim>\<open>deadspace\<close> array is \<^verbatim>\<open>np.full_like(collage, True)\<close>: the source writes its three
  channels together, always with one value, so it holds one truth value per position.
\<close>

record 'a ndarray =
  rows :: nat
  cols :: nat
  cell :: "nat \<Rightarrow> nat \<Rightarrow> 'a"

definition full :: "nat \<Rightarrow> nat \<Rightarrow> 'a \<Rightarrow> 'a ndarray" where
  "full h w v = \<lparr>rows = h, cols = w, cell = \<lambda>_ _. v\<rparr>"

text \<open>
  \<^verbatim>\<open>a[y : y + dy, x : x + dx] = src\<close>. In \<^verbatim>\<open>arrange_images\<close> every slice lies inside
  the canvas (lemmas \<open>placements_in_bounds\<close> and \<open>covered_inside_canvas\<close> below),
  so numpy never clips one and the assignment writes \<open>src\<close> position by position.
\<close>

definition in_slice :: "nat \<Rightarrow> nat \<Rightarrow> nat \<Rightarrow> nat \<Rightarrow> nat \<Rightarrow> nat \<Rightarrow> bool" where
  "in_slice y dy x dx r c = (y \<le> r \<and> r < y + dy \<and> x \<le> c \<and> c < x + dx)"

definition assign_slice ::
    "'a ndarray \<Rightarrow> nat \<Rightarrow> nat \<Rightarrow> nat \<Rightarrow> nat \<Rightarrow> (nat \<Rightarrow> nat \<Rightarrow> 'a) \<Rightarrow> 'a ndarray" where
  "assign_slice a y dy x dx src =
     a\<lparr>cell := \<lambda>r c. if in_slice y dy x dx r c then src (r - y) (c - x) else cell a r c\<rparr>"

text \<open>\<^verbatim>\<open>np.where(m)\<close>: the positions of the array that hold a true value.\<close>

definition np_where :: "bool ndarray \<Rightarrow> nat \<Rightarrow> nat \<Rightarrow> bool" where
  "np_where m r c = (r < rows m \<and> c < cols m \<and> cell m r c)"

text \<open>
  \<^verbatim>\<open>sorted(xs, key=k, reverse=True)\<close>: the list is reversed, sorted stably by ascending
  key and reversed again, which is how CPython keeps the sort stable under
  \<^verbatim>\<open>reverse\<close>.
\<close>

definition sorted_reverse :: "('a \<Rightarrow> 'k::linorder) \<Rightarrow> 'a list \<Rightarrow> 'a list" where
  "sorted_reverse key xs = rev (sort_key key (rev xs))"

definition area :: "image \<Rightarrow> nat" where
  "area x = fst (img_size x) * snd (img_size x)"

text \<open>
  \<^verbatim>\<open>rpack.pack\<close> and PIL's \<^verbatim>\<open>GaussianBlur\<close> filter are libraries: parameters. The
  packer maps the list of sizes to the list of positions \<open>(x, y)\<close>; the blur maps a
  radius and a canvas to the blurred canvas, of which only the values are read.
\<close>

type_synonym packer = "(nat \<times> nat) list \<Rightarrow> (nat \<times> nat) list"

type_synonym blur = "real \<Rightarrow> rgb ndarray \<Rightarrow> rgb ndarray"

type_synonym placement = "(nat \<times> nat) \<times> image"

text \<open>Lines 166 to 170: the sorted posters, zipped with the positions the packer gives.\<close>

definition sorted_posters :: "image list \<Rightarrow> image list" where
  "sorted_posters normalized_posters = sorted_reverse area normalized_posters"

definition placements :: "packer \<Rightarrow> image list \<Rightarrow> placement list" where
  "placements pack normalized_posters =
     (let sorted_ps = sorted_posters normalized_posters;
          sizes = map img_size sorted_ps;
          positions = pack sizes
      in zip positions sorted_ps)"

text \<open>Lines 172 to 174: the white canvas.\<close>

definition blank_canvas :: "packer \<Rightarrow> image list \<Rightarrow> error + rgb ndarray" where
  "blank_canvas pack normalized_posters =
     (let sorted_ps = sorted_posters normalized_posters;
          sizes = map img_size sorted_ps;
          positions = pack sizes
      in case py_max (map (\<lambda>(a, b). fst a + fst b) (zip positions sizes)) of
           Inl e \<Rightarrow> Inl e
         | Inr max_width \<Rightarrow>
             (case py_max (map (\<lambda>(a, b). snd a + snd b) (zip positions sizes)) of
                Inl e \<Rightarrow> Inl e
              | Inr max_height \<Rightarrow>
                  Inr (full (max_height + 1) (max_width + 1) (255, 255, 255))))"

text \<open>Lines 178 to 181: the body of the placing loop, and the loop.\<close>

definition place ::
    "placement \<Rightarrow> rgb ndarray \<times> bool ndarray \<Rightarrow> rgb ndarray \<times> bool ndarray" where
  "place p s =
     (case p of ((x, y), img) \<Rightarrow>
        case s of (collage, deadspace) \<Rightarrow>
          let (dx, dy) = img_size img
          in (assign_slice collage y dy x dx (pixels img),
              assign_slice deadspace y dy x dx (\<lambda>_ _. False)))"

fun place_images ::
    "placement list \<Rightarrow> rgb ndarray \<times> bool ndarray \<Rightarrow> rgb ndarray \<times> bool ndarray" where
  "place_images [] s = s"
| "place_images (p # ps) s = place_images ps (place p s)"

text \<open>Lines 166 to 181: the canvas and the mask after compositing.\<close>

definition composite :: "packer \<Rightarrow> image list \<Rightarrow> error + rgb ndarray \<times> bool ndarray" where
  "composite pack normalized_posters =
     (case blank_canvas pack normalized_posters of
        Inl e \<Rightarrow> Inl e
      | Inr collage \<Rightarrow>
          let deadspace = full (rows collage) (cols collage) True
          in Inr (place_images (placements pack normalized_posters) (collage, deadspace)))"

text \<open>
  Lines 189 and 190: one diffusion pass. The blurred copy is taken from the whole current
  canvas; only the positions of \<^verbatim>\<open>deadspace\<close> are overwritten.
\<close>

definition diffuse_step ::
    "(rgb ndarray \<Rightarrow> rgb ndarray) \<Rightarrow> (nat \<Rightarrow> nat \<Rightarrow> bool) \<Rightarrow> rgb ndarray \<Rightarrow> rgb ndarray" where
  "diffuse_step gaussian_blur deadspace collage =
     (let blurred = gaussian_blur collage
      in collage\<lparr>cell := \<lambda>r c. if deadspace r c then cell blurred r c else cell collage r c\<rparr>)"

fun diffuse ::
    "(rgb ndarray \<Rightarrow> rgb ndarray) \<Rightarrow> (nat \<Rightarrow> nat \<Rightarrow> bool) \<Rightarrow> nat \<Rightarrow> rgb ndarray \<Rightarrow> rgb ndarray" where
  "diffuse gaussian_blur deadspace 0 collage = collage"
| "diffuse gaussian_blur deadspace (Suc n) collage =
     diffuse gaussian_blur deadspace n (diffuse_step gaussian_blur deadspace collage)"

text \<open>
  \<^verbatim>\<open>arrange_images\<close>. \<^verbatim>\<open>range(blur_factor)\<close> is empty for a negative
  \<^verbatim>\<open>blur_factor\<close>, hence \<open>nat blur_factor\<close> passes.
\<close>

definition arrange_images ::
    "packer \<Rightarrow> blur \<Rightarrow> image list \<Rightarrow> int \<Rightarrow> real \<Rightarrow> error + rgb ndarray" where
  "arrange_images pack GaussianBlur normalized_posters blur_factor blur_radius =
     (case composite pack normalized_posters of
        Inl e \<Rightarrow> Inl e
      | Inr (collage, deadspace) \<Rightarrow>
          let deadspace = np_where deadspace;
              gaussian_blur = GaussianBlur blur_radius
          in Inr (diffuse gaussian_blur deadspace (nat blur_factor) collage))"

text \<open>
  \<^verbatim>\<open>draw\<close> without its file input and output: the posters are normalized, then
  arranged.
\<close>

definition draw ::
    "resample \<Rightarrow> packer \<Rightarrow> blur \<Rightarrow> (int \<times> image) list \<Rightarrow> int \<Rightarrow> real \<Rightarrow> error + rgb ndarray" where
  "draw filt pack GaussianBlur time_posters blur_factor blur_radius =
     (case normalize_posters filt time_posters of
        Inl e \<Rightarrow> Inl e
      | Inr normalized_posters \<Rightarrow>
          arrange_images pack GaussianBlur normalized_posters blur_factor blur_radius)"

text \<open>
  The geometry of a placement, as the slices of the placing loop read it: the positions a
  rectangle covers, the pixel of its buffer that lands on a covered position, and the two
  sums whose maxima give the canvas its size.
\<close>

definition covers :: "placement \<Rightarrow> nat \<Rightarrow> nat \<Rightarrow> bool" where
  "covers p r c =
     (case p of ((x, y), img) \<Rightarrow> in_slice y (snd (img_size img)) x (fst (img_size img)) r c)"

definition source_pixel :: "placement \<Rightarrow> nat \<Rightarrow> nat \<Rightarrow> rgb" where
  "source_pixel p r c = (case p of ((x, y), img) \<Rightarrow> pixels img (r - y) (c - x))"

definition right_edge :: "placement \<Rightarrow> nat" where
  "right_edge p = (case p of ((x, y), img) \<Rightarrow> x + fst (img_size img))"

definition bottom_edge :: "placement \<Rightarrow> nat" where
  "bottom_edge p = (case p of ((x, y), img) \<Rightarrow> y + snd (img_size img))"

section \<open>Instances of the library parameters\<close>

text \<open>
  Simple stand-ins for the three library functions, to run the model on concrete inputs:
  nearest-neighbour resampling, a packer that puts the rectangles side by side on one
  row, and a blur that gives each position the value \<open>radius\<close> columns to its left.
\<close>

definition nearest :: resample where
  "nearest sz img r c =
     pixels img (r * snd (img_size img) div snd sz) (c * fst (img_size img) div fst sz)"

fun row_pack_from :: "nat \<Rightarrow> (nat \<times> nat) list \<Rightarrow> (nat \<times> nat) list" where
  "row_pack_from x [] = []"
| "row_pack_from x (s # ss) = (x, 0) # row_pack_from (x + fst s) ss"

definition row_pack :: packer where
  "row_pack sizes = row_pack_from 0 sizes"

definition smear :: blur where
  "smear radius a = a\<lparr>cell := \<lambda>r c. cell a r (c - nat \<lfloor>radius\<rfloor>)\<rparr>"

definition plain :: "nat \<Rightarrow> nat \<Rightarrow> rgb \<Rightarrow> image" where
  "plain w h v = \<lparr>img_size = (w, h), pixels = \<lambda>_ _. v\<rparr>"

section \<open>Supporting lemmas\<close>

subsection \<open>Rounding to a double\<close>

lemma round_half_even_int: "round_half_even (of_int z) = z"
  by (simp add: round_half_even_def)

lemma round_half_even_near:
  assumes "of_int m - 1 / 2 < z" and "z < of_int m + 1 / 2"
  shows "round_half_even z = m"
proof (cases "of_int m \<le> z")
  case True
  then have "\<lfloor>z\<rfloor> = m" using assms(2) by (intro floor_unique) simp_all
  then show ?thesis using assms(2) by (simp add: round_half_even_def Let_def)
next
  case False
  then have "\<lfloor>z\<rfloor> = m - 1" using assms(1) by (intro floor_unique) simp_all
  then show ?thesis using assms(1) by (simp add: round_half_even_def Let_def)
qed


lemma floor_log2:
  assumes "2 powr of_int e \<le> x" and "x < 2 powr of_int (e + 1)"
  shows "\<lfloor>log 2 x\<rfloor> = e"
proof -
  have pos: "0 < x" using assms(1) by (rule less_le_trans[rotated]) simp
  have "of_int e \<le> log 2 x" using assms(1) pos by (simp add: le_log_iff)
  moreover have "log 2 x < of_int (e + 1)" using assms(2) pos by (simp add: log_less_iff)
  ultimately show ?thesis by (intro floor_unique) simp_all
qed

lemma round_double_normal:
  assumes "2 powr of_int e \<le> \<bar>x\<bar>" and "\<bar>x\<bar> < 2 powr of_int (e + 1)" and "- 1022 \<le> e"
    and "q = 2 powr of_int (e - 52)"
    and "round_half_even (x / q) = m" and "\<bar>of_int m * q\<bar> < overflow_threshold"
  shows "round_double x = Finite (of_int m * q)"
proof -
  have "0 < \<bar>x\<bar>" using assms(1) by (rule less_le_trans[rotated]) simp
  then have nz: "x \<noteq> 0" by simp
  have e: "\<lfloor>log 2 \<bar>x\<bar>\<rfloor> = e" using assms(1,2) by (rule floor_log2)
  have m: "max (e - 52) (- 1074) = e - 52" using assms(3) by simp
  have q: "2 powr (of_int e - 52) = q" using assms(4) by simp
  show ?thesis
    using assms(5,6) by (simp add: round_double_def nz e m Let_def q)
qed

lemma round_double_zero: "round_double 0 = Finite 0"
  by (simp add: round_double_def)

text \<open>
  Every integer multiple \<open>n * 2 ^ k\<close> with \<open>\<bar>n\<bar> < 2 ^ 53\<close> in the exponent range is a double.
\<close>

lemma round_double_exact:
  assumes "\<bar>n\<bar> < 2 ^ 53" and "- 1074 \<le> k" and "k \<le> 970"
  shows "round_double (of_int n * 2 powr of_int k) = Finite (of_int n * 2 powr of_int k)"
proof (cases "n = 0")
  case True
  then show ?thesis by (simp add: round_double_zero)
next
  case False
  let ?x = "of_int n * 2 powr of_int k :: real"
  define e where "e = \<lfloor>log 2 \<bar>?x\<bar>\<rfloor>"
  define p where "p = max (e - 52) (- 1074)"
  have nz: "?x \<noteq> 0" using False by simp
  have ax: "\<bar>?x\<bar> = \<bar>of_int n\<bar> * 2 powr of_int k" by (simp add: abs_mult)
  have "\<bar>of_int n :: real\<bar> < 2 ^ 53"
    using assms(1) by (metis of_int_abs of_int_less_numeral_power_cancel_iff)
  then have b1: "\<bar>?x\<bar> < 2 ^ 53 * 2 powr of_int k" by (simp add: ax)
  have b2: "(2::real) ^ 53 * 2 powr of_int k = 2 powr of_int (53 + k)"
    by (simp add: powr_add powr_realpow[symmetric])
  from b1 b2 have b3: "\<bar>?x\<bar> < 2 powr of_int (53 + k)" by simp
  then have "log 2 \<bar>?x\<bar> < of_int (53 + k)" using nz by (simp add: log_less_iff)
  then have "e < 53 + k" unfolding e_def by (simp add: floor_less_iff)
  then have pk: "p \<le> k" unfolding p_def using assms(2) by simp
  define j where "j = nat (k - p)"
  have "(2::real) ^ j = 2 powr of_int (k - p)"
    using pk by (simp add: j_def powr_realpow[symmetric])
  then have kp: "(2::real) powr of_int k = 2 powr of_int p * 2 ^ j"
    by (simp add: powr_add[symmetric])
  then have quot: "?x / 2 powr of_int p = of_int (n * 2 ^ j)" by simp
  have again: "of_int (n * 2 ^ j) * 2 powr of_int p = ?x"
    by (simp add: kp)
  have "(2::real) powr of_int (53 + k) \<le> 2 powr of_int 1024"
    using assms(3) by (intro powr_mono) simp_all
  also have "\<dots> = overflow_threshold"
    by (simp add: overflow_threshold_def powr_realpow[symmetric])
  finally have small: "\<bar>?x\<bar> < overflow_threshold" using b3 by simp
  show ?thesis
    unfolding round_double_def using nz small
    by (simp only: Let_def e_def[symmetric] p_def[symmetric] quot round_half_even_int again if_False)
       simp
qed

lemma round_double_int:
  assumes "\<bar>n\<bar> < 2 ^ 53"
  shows "round_double (of_int n) = Finite (of_int n)"
  using round_double_exact[OF assms, of 0] by simp


lemma round_double_dyadic:
  assumes "\<bar>n\<bar> < 2 ^ 53" and "j \<le> 1074"
  shows "round_double (of_int n / 2 ^ j) = Finite (of_int n / 2 ^ j)"
proof -
  have "(2::real) powr of_int (- int j) = 1 / 2 ^ j"
    by (simp add: powr_minus_divide powr_realpow[symmetric])
  then show ?thesis
    using round_double_exact[OF assms(1), of "- int j"] assms(2) by simp
qed



text \<open>
  Evaluation of a rounding at a known exponent.
\<close>

lemma below_threshold: "\<bar>y\<bar> < 2 ^ 1000 \<Longrightarrow> \<bar>y\<bar> < overflow_threshold"
  by (simp add: overflow_threshold_def)

lemma round_double_at:
  assumes "lo \<le> \<bar>x\<bar>" and "\<bar>x\<bar> < 2 * lo" and "lo = 2 powr of_int e" and "- 1022 \<le> e"
    and "q = lo / 2 ^ 52" and "round_half_even (x / q) = m" and "\<bar>of_int m * q\<bar> < 2 ^ 1000"
  shows "round_double x = Finite (of_int m * q)"
proof (rule round_double_normal[where e = e])
  show "2 powr of_int e \<le> \<bar>x\<bar>" using assms(1,3) by simp
  show "\<bar>x\<bar> < 2 powr of_int (e + 1)" using assms(2,3) by (simp add: powr_add)
  show "- 1022 \<le> e" by (rule assms(4))
  show "q = 2 powr of_int (e - 52)"
    using assms(3,5) by (simp add: powr_diff powr_realpow[symmetric])
  show "round_half_even (x / q) = m" by (rule assms(6))
  show "\<bar>of_int m * q\<bar> < overflow_threshold" using assms(7) by (rule below_threshold)
qed

lemma round_double_numeral:
  "\<bar>numeral w :: int\<bar> < 2 ^ 53 \<Longrightarrow> round_double (numeral w) = Finite (numeral w)"
  using round_double_int[of "numeral w"] by simp

lemma round_double_one: "round_double 1 = Finite 1"
  using round_double_int[of 1] by simp

lemma float_of_nat_numeral:
  "\<bar>numeral w :: int\<bar> < 2 ^ 53 \<Longrightarrow> float_of_nat (numeral w) = Finite (numeral w)"
  by (simp add: float_of_nat_def round_double_numeral)

lemma round_double_half: "round_double (1 / 2) = Finite (1 / 2)"
  using round_double_dyadic[of 1 1] by simp

lemma round_double_quarter: "round_double (1 / 4) = Finite (1 / 4)"
  using round_double_dyadic[of 1 2] by simp

lemma round_double_sixteenth: "round_double (1 / 16) = Finite (1 / 16)"
  using round_double_dyadic[of 1 4] by simp

lemma round_double_49_4: "round_double (49 / 4) = Finite (49 / 4)"
  using round_double_dyadic[of 49 2] by simp

lemmas exact_doubles =
  round_double_zero round_double_one round_double_numeral float_of_nat_numeral
  round_double_half round_double_quarter round_double_sixteenth round_double_49_4

lemma sizes_exact:
  "float_of_nat 2 = Finite 2" "float_of_nat 3 = Finite 3" "float_of_nat 4 = Finite 4"
  "float_of_nat 7 = Finite 7" "float_of_nat 8 = Finite 8" "float_of_nat 50 = Finite 50"
  "float_of_nat 100 = Finite 100" "float_of_nat 225 = Finite 225"
  "float_of_nat 318 = Finite 318"
  by (simp_all add: float_of_nat_numeral)

subsection \<open>Roundings of the examples\<close>

text \<open>
  Each lemma evaluates one rounded operation of an example below: the exponent of the exact
  result, its quotient by the spacing of the doubles there, and the nearest integer.
\<close>

lemma sqrt_two:
  "np_sqrt (Finite 2) = Finite (6369051672525773 / 2 ^ 52)"
proof -
  have lo: "1 \<le> sqrt 2"
    by (rule real_le_rsqrt) (simp add: power2_eq_square)
  have hi: "sqrt 2 < 2 * (1)"
    by (rule real_less_lsqrt) (simp_all add: power2_eq_square)
  have a: "(6369051672525773 - 1 / 2) * (1 / 2 ^ 52) < sqrt 2"
    by (rule real_less_rsqrt) (simp add: power2_eq_square)
  have b: "sqrt 2 < (6369051672525773 + 1 / 2) * (1 / 2 ^ 52)"
    by (rule real_less_lsqrt) (simp_all add: power2_eq_square)
  have m: "round_half_even (sqrt 2 / ((1) / 2 ^ 52)) = 6369051672525773"
    using a b by (intro round_half_even_near) (simp_all add: field_simps)
  have "round_double (sqrt 2) =
          Finite (of_int 6369051672525773 * ((1) / 2 ^ 52))"
    using lo hi m
    by (intro round_double_at[where e = "0" and lo = "1"]) (simp_all add: power2_eq_square)
  then show ?thesis by simp
qed

lemma example_width:
  "fmul (Finite (6369051672525773 / 2 ^ 52)) (Finite 50) = Finite (621977702395095 / 2 ^ 43)"
proof -
  have "round_double ((6369051672525773 / 2 ^ 52) * 50) =
          Finite (of_int 4975821619160760 * ((64) / 2 ^ 52))"
    by (rule round_double_at[where e = "6" and lo = "64"])
       (simp_all add: round_half_even_def)
  then show ?thesis by simp
qed

lemma example_width_times:
  "fmul (Finite (621977702395095 / 2 ^ 43)) (Finite 50) = Finite (60740009999521 / 2 ^ 34)"
proof -
  have "round_double ((621977702395095 / 2 ^ 43) * 50) =
          Finite (of_int 7774721279938688 * ((2048) / 2 ^ 52))"
    by (rule round_double_at[where e = "11" and lo = "2048"])
       (simp_all add: round_half_even_def)
  then show ?thesis by simp
qed

lemma example_height:
  "fdiv (Finite (60740009999521 / 2 ^ 34)) (Finite 50) = Finite (621977702395095 / 2 ^ 43)"
proof -
  have "round_double ((60740009999521 / 2 ^ 34) / 50) =
          Finite (of_int 4975821619160760 * ((64) / 2 ^ 52))"
    by (rule round_double_at[where e = "6" and lo = "64"])
       (simp_all add: round_half_even_def)
  then show ?thesis by simp
qed

lemma sqrt_ninth:
  "np_sqrt (Finite (2001599834386887 / 2 ^ 54)) = Finite (6004799503160661 / 2 ^ 54)"
proof -
  have lo: "1 / 2 ^ 2 \<le> sqrt (2001599834386887 / 2 ^ 54)"
    by (rule real_le_rsqrt) (simp add: power2_eq_square)
  have hi: "sqrt (2001599834386887 / 2 ^ 54) < 2 * (1 / 2 ^ 2)"
    by (rule real_less_lsqrt) (simp_all add: power2_eq_square)
  have a: "(6004799503160661 - 1 / 2) * (1 / 2 ^ 54) < sqrt (2001599834386887 / 2 ^ 54)"
    by (rule real_less_rsqrt) (simp add: power2_eq_square)
  have b: "sqrt (2001599834386887 / 2 ^ 54) < (6004799503160661 + 1 / 2) * (1 / 2 ^ 54)"
    by (rule real_less_lsqrt) (simp_all add: power2_eq_square)
  have m: "round_half_even (sqrt (2001599834386887 / 2 ^ 54) / ((1 / 2 ^ 2) / 2 ^ 52)) = 6004799503160661"
    using a b by (intro round_half_even_near) (simp_all add: field_simps)
  have "round_double (sqrt (2001599834386887 / 2 ^ 54)) =
          Finite (of_int 6004799503160661 * ((1 / 2 ^ 2) / 2 ^ 52))"
    using lo hi m
    by (intro round_double_at[where e = "- 2" and lo = "1 / 2 ^ 2"]) (simp_all add: powr_minus_divide)
  then show ?thesis by simp
qed

lemma ninth_width:
  "fmul (Finite (6004799503160661 / 2 ^ 54)) (Finite 3) = Finite (1)"
proof -
  have "round_double ((6004799503160661 / 2 ^ 54) * 3) =
          Finite (of_int 9007199254740992 * ((1 / 2 ^ 1) / 2 ^ 52))"
    by (rule round_double_at[where e = "- 1" and lo = "1 / 2 ^ 1"])
       (simp_all add: round_half_even_def powr_minus_divide)
  then show ?thesis by simp
qed

lemma one_by_49:
  "py_truediv 1 49 = Inr (Finite (5882252574524729 / 2 ^ 58))"
proof -
  have "round_double (1 / 49) =
          Finite (of_int 5882252574524729 * ((1 / 2 ^ 6) / 2 ^ 52))"
    by (rule round_double_at[where e = "- 6" and lo = "1 / 2 ^ 6"])
       (simp_all add: round_half_even_def powr_minus_divide)
  then show ?thesis by (simp add: py_truediv_def)
qed

lemma quarter_ratio:
  "fmul (Finite (49 / 2 ^ 2)) (Finite (5882252574524729 / 2 ^ 58)) = Finite (9007199254740991 / 2 ^ 55)"
proof -
  have "round_double ((49 / 2 ^ 2) * (5882252574524729 / 2 ^ 58)) =
          Finite (of_int 9007199254740991 * ((1 / 2 ^ 3) / 2 ^ 52))"
    by (rule round_double_at[where e = "- 3" and lo = "1 / 2 ^ 3"])
       (simp_all add: round_half_even_def powr_minus_divide)
  then show ?thesis by simp
qed

lemma sqrt_quarter_ratio:
  "np_sqrt (Finite (9007199254740991 / 2 ^ 55)) = Finite (9007199254740991 / 2 ^ 54)"
proof -
  have lo: "1 / 2 ^ 2 \<le> sqrt (9007199254740991 / 2 ^ 55)"
    by (rule real_le_rsqrt) (simp add: power2_eq_square)
  have hi: "sqrt (9007199254740991 / 2 ^ 55) < 2 * (1 / 2 ^ 2)"
    by (rule real_less_lsqrt) (simp_all add: power2_eq_square)
  have a: "(9007199254740991 - 1 / 2) * (1 / 2 ^ 54) < sqrt (9007199254740991 / 2 ^ 55)"
    by (rule real_less_rsqrt) (simp add: power2_eq_square)
  have b: "sqrt (9007199254740991 / 2 ^ 55) < (9007199254740991 + 1 / 2) * (1 / 2 ^ 54)"
    by (rule real_less_lsqrt) (simp_all add: power2_eq_square)
  have m: "round_half_even (sqrt (9007199254740991 / 2 ^ 55) / ((1 / 2 ^ 2) / 2 ^ 52)) = 9007199254740991"
    using a b by (intro round_half_even_near) (simp_all add: field_simps)
  have "round_double (sqrt (9007199254740991 / 2 ^ 55)) =
          Finite (of_int 9007199254740991 * ((1 / 2 ^ 2) / 2 ^ 52))"
    using lo hi m
    by (intro round_double_at[where e = "- 2" and lo = "1 / 2 ^ 2"]) (simp_all add: powr_minus_divide)
  then show ?thesis by simp
qed





lemma sqrt_four_ninths:
  "np_sqrt (Finite (2001599834386887 / 2 ^ 52)) = Finite (6004799503160661 / 2 ^ 53)"
proof -
  have lo: "1 / 2 ^ 1 \<le> sqrt (2001599834386887 / 2 ^ 52)"
    by (rule real_le_rsqrt) (simp add: power2_eq_square)
  have hi: "sqrt (2001599834386887 / 2 ^ 52) < 2 * (1 / 2 ^ 1)"
    by (rule real_less_lsqrt) (simp_all add: power2_eq_square)
  have a: "(6004799503160661 - 1 / 2) * (1 / 2 ^ 53) < sqrt (2001599834386887 / 2 ^ 52)"
    by (rule real_less_rsqrt) (simp add: power2_eq_square)
  have b: "sqrt (2001599834386887 / 2 ^ 52) < (6004799503160661 + 1 / 2) * (1 / 2 ^ 53)"
    by (rule real_less_lsqrt) (simp_all add: power2_eq_square)
  have m: "round_half_even (sqrt (2001599834386887 / 2 ^ 52) / ((1 / 2 ^ 1) / 2 ^ 52)) = 6004799503160661"
    using a b by (intro round_half_even_near) (simp_all add: field_simps)
  have "round_double (sqrt (2001599834386887 / 2 ^ 52)) =
          Finite (of_int 6004799503160661 * ((1 / 2 ^ 1) / 2 ^ 52))"
    using lo hi m
    by (intro round_double_at[where e = "- 1" and lo = "1 / 2 ^ 1"]) (simp_all add: powr_minus_divide)
  then show ?thesis by simp
qed

lemma four_ninths_width:
  "fmul (Finite (6004799503160661 / 2 ^ 53)) (Finite 3) = Finite (2)"
proof -
  have "round_double ((6004799503160661 / 2 ^ 53) * 3) =
          Finite (of_int 9007199254740992 * ((1) / 2 ^ 52))"
    by (rule round_double_at[where e = "0" and lo = "1"])
       (simp_all add: round_half_even_def)
  then show ?thesis by simp
qed

subsection \<open>The resize\<close>

lemma img_size_plain: "img_size (plain w h v) = (w, h)"
  by (simp add: plain_def)

lemma pixels_plain: "pixels (plain w h v) r c = v"
  by (simp add: plain_def)

lemma area_plain: "area (plain w h v) = w * h"
  by (simp add: area_def img_size_plain)

lemma img_size_resize: "img_size (resize filt sz img) = sz"
  by (simp add: resize_def)

lemma nat_floor_ge1: "1 \<le> x \<Longrightarrow> Suc 0 \<le> nat \<lfloor>x\<rfloor>"
proof -
  assume "1 \<le> x"
  then have "1 \<le> \<lfloor>x\<rfloor>" by (simp add: le_floor_iff)
  then show ?thesis by linarith
qed

lemma resize_retained:
  assumes "width_of ratio img = Finite w" and "height_of ratio img = Finite h"
    and "1 \<le> w" and "1 \<le> h"
  shows "resize_width_w_constant_aspect filt ratio img =
           Inr (Some (resize filt (nat \<lfloor>h\<rfloor>, nat \<lfloor>w\<rfloor>) img))"
  using assms by (simp add: resize_width_w_constant_aspect_def)

lemma resize_dropped:
  assumes "width_of ratio img = Finite w" and "height_of ratio img = Finite h"
    and "w < 1 \<or> h < 1"
  shows "resize_width_w_constant_aspect filt ratio img = Inr None"
  using assms by (auto simp add: resize_width_w_constant_aspect_def)

lemma resize_None_iff:
  "resize_width_w_constant_aspect filt ratio img = Inr None \<longleftrightarrow>
     \<not> (ge_one (height_of ratio img) \<and> ge_one (width_of ratio img))"
  by (auto simp add: resize_width_w_constant_aspect_def Let_def split: sum.splits)

lemma resize_SomeD:
  assumes "resize_width_w_constant_aspect filt ratio img = Inr (Some r)"
  shows "\<exists>w h. width_of ratio img = Finite w \<and> height_of ratio img = Finite h \<and>
               1 \<le> w \<and> 1 \<le> h \<and> r = resize filt (nat \<lfloor>h\<rfloor>, nat \<lfloor>w\<rfloor>) img"
proof -
  from assms have g: "ge_one (height_of ratio img)" "ge_one (width_of ratio img)"
    by (auto simp add: resize_width_w_constant_aspect_def Let_def split: if_splits)
  obtain w where w: "width_of ratio img = Finite w"
    using assms g by (cases "width_of ratio img")
      (auto simp add: resize_width_w_constant_aspect_def Let_def split: sum.splits)
  obtain h where h: "height_of ratio img = Finite h"
    using assms g by (cases "height_of ratio img")
      (auto simp add: resize_width_w_constant_aspect_def Let_def split: sum.splits)
  from g w h have "1 \<le> w" "1 \<le> h" by simp_all
  with assms w h show ?thesis
    by (simp add: resize_width_w_constant_aspect_def)
qed

lemma resize_finite_returns:
  assumes "width_of ratio img = Finite w" and "height_of ratio img = Finite h"
  shows "\<exists>res. resize_width_w_constant_aspect filt ratio img = Inr res"
  using assms by (simp add: resize_width_w_constant_aspect_def)

subsection \<open>The two posters of the worked example\<close>

lemma example_ratio_50: "poster_ratio 10000 10 (5, plain 50 50 v) = Inr (Finite 2)"
  by (simp add: poster_ratio_def img_size_plain py_truediv_def exact_doubles)

lemma example_ratio_100: "poster_ratio 10000 10 (10, plain 100 100 v) = Inr (Finite 1)"
  by (simp add: poster_ratio_def img_size_plain py_truediv_def exact_doubles)

lemma example_width_of:
  "width_of (Finite 2) (plain 50 50 v) = Finite (621977702395095 / 2 ^ 43)"
  unfolding width_of_def img_size_plain fst_conv sqrt_two sizes_exact
  by (rule example_width)

lemma example_height_of:
  "height_of (Finite 2) (plain 50 50 v) = Finite (621977702395095 / 2 ^ 43)"
  unfolding height_of_def example_width_of img_size_plain fst_conv snd_conv sizes_exact
    example_width_times
  by (rule example_height)

lemma resize_example_50:
  "resize_width_w_constant_aspect filt (Finite 2) (plain 50 50 v) =
     Inr (Some (resize filt (70, 70) (plain 50 50 v)))"
  using resize_retained[OF example_width_of example_height_of, where filt = filt] by simp

lemma resize_example_100:
  "resize_width_w_constant_aspect filt (Finite 1) (plain 100 100 v) =
     Inr (Some (resize filt (100, 100) (plain 100 100 v)))"
proof -
  have w: "width_of (Finite 1) (plain 100 100 v) = Finite 100"
    by (simp add: width_of_def img_size_plain exact_doubles)
  have h: "height_of (Finite 1) (plain 100 100 v) = Finite 100"
    by (simp add: height_of_def w img_size_plain exact_doubles)
  from resize_retained[OF w h, of filt] show ?thesis by simp
qed

lemma spec_example_sizes:
  "normalize_posters filt [(10, plain 100 100 v), (5, plain 50 50 v)] =
     Inr [resize filt (100, 100) (plain 100 100 v), resize filt (70, 70) (plain 50 50 v)]"
  by (simp add: normalize_posters_def img_size_plain example_ratio_50 example_ratio_100
        resize_example_50 resize_example_100)

lemma sqrt2_bounds: "141 / 100 \<le> sqrt 2" "sqrt 2 < 143 / 100"
proof -
  show "141 / 100 \<le> sqrt 2" by (rule real_le_rsqrt) (simp add: power2_eq_square)
  show "sqrt 2 < 143 / 100" by (rule real_less_lsqrt) (simp_all add: power2_eq_square)
qed

subsection \<open>Two posters of one area and one weight\<close>

lemma unequal_aspect_example:
  "normalize_posters filt [(1, plain 4 4 v), (1, plain 8 2 v)] =
     Inr [resize filt (4, 4) (plain 4 4 v), resize filt (32, 8) (plain 8 2 v)]"
proof -
  have r1: "poster_ratio 16 1 (1, plain 4 4 v) = Inr (Finite 1)"
    by (simp add: poster_ratio_def img_size_plain py_truediv_def exact_doubles)
  have r2: "poster_ratio 16 1 (1, plain 8 2 v) = Inr (Finite 1)"
    by (simp add: poster_ratio_def img_size_plain py_truediv_def exact_doubles)
  have w1: "width_of (Finite 1) (plain 4 4 v) = Finite 4"
    by (simp add: width_of_def img_size_plain exact_doubles)
  have h1: "height_of (Finite 1) (plain 4 4 v) = Finite 4"
    by (simp add: height_of_def w1 img_size_plain exact_doubles)
  have w2: "width_of (Finite 1) (plain 8 2 v) = Finite 8"
    by (simp add: width_of_def img_size_plain exact_doubles)
  have h2: "height_of (Finite 1) (plain 8 2 v) = Finite 32"
    by (simp add: height_of_def w2 img_size_plain exact_doubles)
  have a: "resize_width_w_constant_aspect filt (Finite 1) (plain 4 4 v) =
             Inr (Some (resize filt (4, 4) (plain 4 4 v)))"
    using resize_retained[OF w1 h1, of filt] by simp
  have b: "resize_width_w_constant_aspect filt (Finite 1) (plain 8 2 v) =
             Inr (Some (resize filt (32, 8) (plain 8 2 v)))"
    using resize_retained[OF w2 h2, of filt] by simp
  show ?thesis
    by (simp add: normalize_posters_def img_size_plain r1 r2 a b)
qed

subsection \<open>Ratios just below one ninth and four ninths\<close>

text \<open>
  The double nearest to one ninth lies below it. Its rounded square root times 3 rounds
  up to exactly 1, so a poster of 3 by 3 is kept, as 1 by 1. In the same way the double
  nearest to four ninths gives exactly 2.
\<close>

lemma ninth_width_of:
  "width_of (Finite (2001599834386887 / 2 ^ 54)) (plain 3 3 v) = Finite 1"
  unfolding width_of_def img_size_plain fst_conv sqrt_ninth sizes_exact
  by (rule ninth_width)

lemma ninth_height_of:
  "height_of (Finite (2001599834386887 / 2 ^ 54)) (plain 3 3 v) = Finite 1"
  unfolding height_of_def ninth_width_of
  by (simp add: img_size_plain exact_doubles)

lemma four_ninths_width_of:
  "width_of (Finite (2001599834386887 / 2 ^ 52)) (plain 3 3 v) = Finite 2"
  unfolding width_of_def img_size_plain fst_conv sqrt_four_ninths sizes_exact
  by (rule four_ninths_width)

lemma four_ninths_height_of:
  "height_of (Finite (2001599834386887 / 2 ^ 52)) (plain 3 3 v) = Finite 2"
  unfolding height_of_def four_ninths_width_of
  by (simp add: img_size_plain exact_doubles)

subsection \<open>A ratio just below one quarter\<close>

text \<open>
  Posters of 7 by 7 and 2 by 2 with times 49 and 1. The ratio of the small one is
  \<open>49 / 4\<close> times the rounded \<open>1 / 49\<close>, which rounds below one quarter; its computed
  width is below 1 and it is dropped.
\<close>

lemma quarter_poster_ratio:
  "poster_ratio 49 49 (1, plain 2 2 v) = Inr (Finite (9007199254740991 / 2 ^ 55))"
proof -
  have d1: "py_truediv (int 49) (int (fst (img_size (plain 2 2 v)) * snd (img_size (plain 2 2 v)))) =
              Inr (Finite (49 / 2 ^ 2))"
    by (simp add: py_truediv_def img_size_plain round_double_49_4)
  show ?thesis
    by (simp only: poster_ratio_def prod.case d1 one_by_49 sum.case quarter_ratio)
qed

lemma quarter_width_of:
  "width_of (Finite (9007199254740991 / 2 ^ 55)) (plain 2 2 v) = Finite (9007199254740991 / 2 ^ 53)"
proof -
  have "fmul (Finite (9007199254740991 / 2 ^ 54)) (Finite 2) = Finite (9007199254740991 / 2 ^ 53)"
    using round_double_dyadic[of 9007199254740991 53] by simp
  then show ?thesis
    unfolding width_of_def img_size_plain fst_conv sqrt_quarter_ratio sizes_exact .
qed

lemma quarter_height_of:
  "height_of (Finite (9007199254740991 / 2 ^ 55)) (plain 2 2 v) = Finite (9007199254740991 / 2 ^ 53)"
proof -
  have a: "fmul (Finite (9007199254740991 / 2 ^ 53)) (Finite 2) = Finite (9007199254740991 / 2 ^ 52)"
    using round_double_dyadic[of 9007199254740991 52] by simp
  have b: "fdiv (Finite (9007199254740991 / 2 ^ 52)) (Finite 2) = Finite (9007199254740991 / 2 ^ 53)"
    using round_double_dyadic[of 9007199254740991 53] by simp
  show ?thesis
    unfolding height_of_def quarter_width_of img_size_plain fst_conv snd_conv sizes_exact a
    by (rule b)
qed

lemma quarter_dropped:
  "resize_width_w_constant_aspect filt (Finite (9007199254740991 / 2 ^ 55)) (plain 2 2 v) = Inr None"
  unfolding resize_None_iff quarter_width_of by simp

lemma quarter_example:
  "normalize_posters filt [(49, plain 7 7 v), (1, plain 2 2 v)] =
     Inr [resize filt (7, 7) (plain 7 7 v)]"
proof -
  have r1: "poster_ratio 49 49 (49, plain 7 7 v) = Inr (Finite 1)"
    by (simp add: poster_ratio_def img_size_plain py_truediv_def exact_doubles)
  have w1: "width_of (Finite 1) (plain 7 7 v) = Finite 7"
    by (simp add: width_of_def img_size_plain exact_doubles)
  have h1: "height_of (Finite 1) (plain 7 7 v) = Finite 7"
    by (simp add: height_of_def w1 img_size_plain exact_doubles)
  have a: "resize_width_w_constant_aspect filt (Finite 1) (plain 7 7 v) =
             Inr (Some (resize filt (7, 7) (plain 7 7 v)))"
    using resize_retained[OF w1 h1, of filt] by simp
  show ?thesis
    by (simp add: normalize_posters_def img_size_plain r1 a quarter_poster_ratio
          quarter_dropped[simplified])
qed

subsection \<open>A computed width just below 123\<close>




subsection \<open>Accumulated rounding error of the two dimensions\<close>








subsection \<open>The loop of the normalizer\<close>

lemma poster_rectangles_resize:
  assumes "poster_ratio max_area max_time p = Inr ratio"
    and "resize_width_w_constant_aspect filt ratio (snd p) = Inr res"
  shows "poster_rectangles filt max_area max_time p = (case res of None \<Rightarrow> [] | Some r \<Rightarrow> [r])"
proof (cases res)
  case None
  with assms(2) have "\<not> (ge_one (height_of ratio (snd p)) \<and> ge_one (width_of ratio (snd p)))"
    by (simp add: resize_None_iff)
  then show ?thesis
    using None assms(1)
    by (cases "width_of ratio (snd p)"; cases "height_of ratio (snd p)")
       (auto simp add: poster_rectangles_def)
next
  case (Some r)
  with assms(2) resize_SomeD[of filt ratio "snd p" r] show ?thesis
    using assms(1) by (auto simp add: poster_rectangles_def)
qed

lemma normalize_loop_concat:
  assumes "normalize_loop filt max_area max_time time_posters acc = Inr ps"
  shows "ps = acc @ concat (map (poster_rectangles filt max_area max_time) time_posters)"
  using assms
proof (induction time_posters arbitrary: acc)
  case Nil
  then show ?case by simp
next
  case (Cons p rest)
  from Cons.prems obtain ratio where r: "poster_ratio max_area max_time p = Inr ratio"
    by (auto split: sum.splits)
  from Cons.prems r obtain res where
    res: "resize_width_w_constant_aspect filt ratio (snd p) = Inr res"
    by (auto split: sum.splits)
  note pr = poster_rectangles_resize[OF r res]
  show ?case
  proof (cases res)
    case None
    with Cons.prems r res have "normalize_loop filt max_area max_time rest acc = Inr ps" by simp
    from Cons.IH[OF this] pr None show ?thesis by simp
  next
    case (Some img)
    with Cons.prems r res
    have "normalize_loop filt max_area max_time rest (acc @ [img]) = Inr ps" by simp
    from Cons.IH[OF this] pr Some show ?thesis by simp
  qed
qed

lemma normalize_loop_returns:
  assumes "\<forall>p \<in> set time_posters. \<exists>ratio w h.
             poster_ratio max_area max_time p = Inr ratio \<and>
             width_of ratio (snd p) = Finite w \<and> height_of ratio (snd p) = Finite h"
  shows "normalize_loop filt max_area max_time time_posters acc =
           Inr (acc @ concat (map (poster_rectangles filt max_area max_time) time_posters))"
  using assms
proof (induction time_posters arbitrary: acc)
  case Nil
  then show ?case by simp
next
  case (Cons p rest)
  from Cons.prems obtain ratio w h where r: "poster_ratio max_area max_time p = Inr ratio"
    and w: "width_of ratio (snd p) = Finite w" and h: "height_of ratio (snd p) = Finite h"
    by auto
  from resize_finite_returns[OF w h] obtain res where
    res: "resize_width_w_constant_aspect filt ratio (snd p) = Inr res" by blast
  note pr = poster_rectangles_resize[OF r res]
  from Cons.prems have rest: "\<forall>p \<in> set rest. \<exists>ratio w h.
             poster_ratio max_area max_time p = Inr ratio \<and>
             width_of ratio (snd p) = Finite w \<and> height_of ratio (snd p) = Finite h"
    by simp
  show ?case
    using Cons.IH[OF rest] r res pr by (cases res) simp_all
qed

lemma poster_rectangles_positive:
  assumes "r \<in> set (poster_rectangles filt max_area max_time p)"
  shows "1 \<le> fst (img_size r) \<and> 1 \<le> snd (img_size r)"
  using assms nat_floor_ge1
  by (auto simp add: poster_rectangles_def img_size_resize not_less
        split: sum.splits double.splits if_splits)

subsection \<open>Placing and diffusing\<close>

lemma place_shape:
  "rows (fst (place p s)) = rows (fst s)" "cols (fst (place p s)) = cols (fst s)"
  "rows (snd (place p s)) = rows (snd s)" "cols (snd (place p s)) = cols (snd s)"
  by (simp_all add: place_def assign_slice_def split: prod.splits)

lemma place_cell:
  "cell (fst (place p s)) r c = (if covers p r c then source_pixel p r c else cell (fst s) r c)"
  by (simp add: place_def assign_slice_def covers_def source_pixel_def split: prod.splits)

lemma place_mask:
  "cell (snd (place p s)) r c = (\<not> covers p r c \<and> cell (snd s) r c)"
  by (auto simp add: place_def assign_slice_def covers_def split: prod.splits)

lemma place_images_shape:
  "rows (fst (place_images ps s)) = rows (fst s) \<and> cols (fst (place_images ps s)) = cols (fst s) \<and>
   rows (snd (place_images ps s)) = rows (snd s) \<and> cols (snd (place_images ps s)) = cols (snd s)"
  by (induction ps arbitrary: s) (simp_all add: place_shape)

lemma place_images_cell:
  "cell (fst (place_images ps s)) r c =
     (if filter (\<lambda>p. covers p r c) ps = [] then cell (fst s) r c
      else source_pixel (last (filter (\<lambda>p. covers p r c) ps)) r c)"
  by (induction ps arbitrary: s) (simp_all add: place_cell)

lemma place_images_mask:
  "cell (snd (place_images ps s)) r c = (cell (snd s) r c \<and> (\<forall>p \<in> set ps. \<not> covers p r c))"
  by (induction ps arbitrary: s) (auto simp add: place_mask)

lemma py_max_Max: "xs \<noteq> [] \<Longrightarrow> py_max xs = Inr (Max (set xs))"
  by (cases xs) (simp_all add: Max.set_eq_fold[symmetric])

lemma zip_sizes_right:
  "map (\<lambda>(a, b). fst a + fst b) (zip positions (map img_size ps)) = map right_edge (zip positions ps)"
  by (simp add: zip_map2 right_edge_def case_prod_unfold comp_def)

lemma zip_sizes_bottom:
  "map (\<lambda>(a, b). snd a + snd b) (zip positions (map img_size ps)) = map bottom_edge (zip positions ps)"
  by (simp add: zip_map2 bottom_edge_def case_prod_unfold comp_def)

lemma blank_canvas_empty:
  "placements pack posters = [] \<Longrightarrow> blank_canvas pack posters = Inl ValueError"
proof -
  assume "placements pack posters = []"
  then have "zip (pack (map img_size (sorted_posters posters))) (sorted_posters posters) = []"
    by (simp add: placements_def Let_def)
  then have "py_max (map (\<lambda>(a, b). fst a + fst b)
      (zip (pack (map img_size (sorted_posters posters))) (map img_size (sorted_posters posters)))) = Inl ValueError"
    by (simp only: zip_sizes_right list.map py_max.simps)
  then show ?thesis
    by (simp only: blank_canvas_def Let_def sum.case)
qed

lemma blank_canvas_nonempty:
  "placements pack posters \<noteq> [] \<Longrightarrow>
   blank_canvas pack posters =
     Inr (full (Max (bottom_edge ` set (placements pack posters)) + 1)
               (Max (right_edge ` set (placements pack posters)) + 1) (255, 255, 255))"
  by (simp add: blank_canvas_def placements_def Let_def zip_sizes_right zip_sizes_bottom py_max_Max)

lemma diffuse_step_shape:
  "rows (diffuse_step g m a) = rows a" "cols (diffuse_step g m a) = cols a"
  by (simp_all add: diffuse_step_def Let_def)

lemma diffuse_step_cell:
  "cell (diffuse_step g m a) r c = (if m r c then cell (g a) r c else cell a r c)"
  by (simp add: diffuse_step_def Let_def)

lemma diffuse_shape: "rows (diffuse g m n a) = rows a \<and> cols (diffuse g m n a) = cols a"
  by (induction n arbitrary: a) (simp_all add: diffuse_step_shape)

lemma diffuse_keeps: "\<not> m r c \<Longrightarrow> cell (diffuse g m n a) r c = cell a r c"
  by (induction n arbitrary: a) (simp_all add: diffuse_step_cell)

lemma diffuse_funpow: "diffuse g m n a = ((diffuse_step g m) ^^ n) a"
  by (induction n arbitrary: a) (simp_all add: funpow_swap1)

lemma composite_nonempty:
  assumes "placements pack posters \<noteq> []"
  shows "composite pack posters =
     Inr (place_images (placements pack posters)
           (full (Max (bottom_edge ` set (placements pack posters)) + 1)
                 (Max (right_edge ` set (placements pack posters)) + 1) (255, 255, 255),
            full (Max (bottom_edge ` set (placements pack posters)) + 1)
                 (Max (right_edge ` set (placements pack posters)) + 1) True))"
  by (simp add: composite_def blank_canvas_nonempty[OF assms] full_def)

lemma composite_empty:
  "placements pack posters = [] \<Longrightarrow> composite pack posters = Inl ValueError"
  by (simp add: composite_def blank_canvas_empty)

lemma composite_props:
  assumes "placements pack posters \<noteq> []"
  shows "\<exists>collage deadspace.
     composite pack posters = Inr (collage, deadspace) \<and>
     rows collage = Max (bottom_edge ` set (placements pack posters)) + 1 \<and>
     cols collage = Max (right_edge ` set (placements pack posters)) + 1 \<and>
     rows deadspace = rows collage \<and> cols deadspace = cols collage \<and>
     (\<forall>r c. cell deadspace r c = (\<forall>p \<in> set (placements pack posters). \<not> covers p r c)) \<and>
     (\<forall>r c. cell collage r c =
        (if filter (\<lambda>p. covers p r c) (placements pack posters) = [] then (255, 255, 255)
         else source_pixel (last (filter (\<lambda>p. covers p r c) (placements pack posters))) r c))"
proof -
  let ?ps = "placements pack posters"
  let ?s = "place_images ?ps
           (full (Max (bottom_edge ` set ?ps) + 1) (Max (right_edge ` set ?ps) + 1) (255, 255, 255),
            full (Max (bottom_edge ` set ?ps) + 1) (Max (right_edge ` set ?ps) + 1) True)"
  have "composite pack posters = Inr (fst ?s, snd ?s)"
    by (simp add: composite_nonempty[OF assms])
  moreover have "rows (fst ?s) = Max (bottom_edge ` set ?ps) + 1"
    and "cols (fst ?s) = Max (right_edge ` set ?ps) + 1"
    and "rows (snd ?s) = rows (fst ?s)" and "cols (snd ?s) = cols (fst ?s)"
    by (simp_all add: place_images_shape full_def)
  moreover have "\<forall>r c. cell (snd ?s) r c = (\<forall>p \<in> set ?ps. \<not> covers p r c)"
    by (simp add: place_images_mask full_def)
  moreover have "\<forall>r c. cell (fst ?s) r c =
        (if filter (\<lambda>p. covers p r c) ?ps = [] then (255, 255, 255)
         else source_pixel (last (filter (\<lambda>p. covers p r c) ?ps)) r c)"
    by (simp add: place_images_cell full_def)
  ultimately show ?thesis by blast
qed

lemma covers_in_bounds:
  "covers p r c \<Longrightarrow> c < right_edge p \<and> r < bottom_edge p"
  by (auto simp add: covers_def right_edge_def bottom_edge_def in_slice_def split: prod.splits)

lemma placements_in_bounds:
  assumes "composite pack posters = Inr (collage, deadspace)"
    and "p \<in> set (placements pack posters)"
  shows "right_edge p < cols collage \<and> bottom_edge p < rows collage"
proof -
  from assms(2) have ne: "placements pack posters \<noteq> []" by auto
  have r: "right_edge p \<le> Max (right_edge ` set (placements pack posters))"
    using assms(2) by simp
  have b: "bottom_edge p \<le> Max (bottom_edge ` set (placements pack posters))"
    using assms(2) by simp
  from composite_props[OF ne] assms(1) r b show ?thesis by auto
qed

lemma covered_inside_canvas:
  assumes "composite pack posters = Inr (collage, deadspace)"
    and "p \<in> set (placements pack posters)" and "covers p r c"
  shows "r < rows collage \<and> c < cols collage"
  using placements_in_bounds[OF assms(1,2)] covers_in_bounds[OF assms(3)] by simp

lemma placements_only_sorted:
  "placements (\<lambda>_. pack (map img_size (sorted_posters posters))) posters = placements pack posters"
  by (simp add: placements_def Let_def)

lemma blank_canvas_only_sorted:
  "blank_canvas (\<lambda>_. pack (map img_size (sorted_posters posters))) posters = blank_canvas pack posters"
  by (simp add: blank_canvas_def Let_def)

lemma composite_only_sorted:
  "composite (\<lambda>_. pack (map img_size (sorted_posters posters))) posters = composite pack posters"
  by (simp only: composite_def placements_only_sorted blank_canvas_only_sorted)

subsection \<open>The reversed stable sort\<close>

lemma sorted_reverse_desc: "sorted_wrt (\<lambda>a b. key a \<ge> key b) (sorted_reverse key xs)"
proof -
  have "sorted (map key (sort_key key (rev xs)))" by simp
  then have "sorted_wrt (\<lambda>a b. key a \<le> key b) (sort_key key (rev xs))"
    by (simp add: sorted_map)
  then show ?thesis by (simp add: sorted_reverse_def sorted_wrt_rev)
qed

lemma sorted_reverse_stable:
  "filter (\<lambda>x. key x = k) (sorted_reverse key xs) = filter (\<lambda>x. key x = k) xs"
  by (simp add: sorted_reverse_def rev_filter[symmetric] sort_key_stable)

lemma sorted_reverse_mset: "mset (sorted_reverse key xs) = mset xs"
  by (simp add: sorted_reverse_def)

subsection \<open>A two-poster collage\<close>

text \<open>
  Two plain posters, a blue one of 2 by 2 and a red one of 3 by 2, given smaller first.
  Sorted by area the red one comes first; the row packer puts it at \<open>(0, 0)\<close> and the
  blue one at \<open>(3, 0)\<close>. The canvas is 6 wide and 3 high: column 5 and row 2 are
  deadspace.
\<close>

lemma example_placements:
  "placements row_pack [plain 2 2 (0, 0, 255), plain 3 2 (255, 0, 0)] =
     [((0, 0), plain 3 2 (255, 0, 0)), ((3, 0), plain 2 2 (0, 0, 255))]"
  by (simp add: placements_def sorted_posters_def sorted_reverse_def area_plain img_size_plain
        row_pack_def)

lemma example_edges:
  "Max (right_edge ` set (placements row_pack [plain 2 2 (0, 0, 255), plain 3 2 (255, 0, 0)])) = 5"
  "Max (bottom_edge ` set (placements row_pack [plain 2 2 (0, 0, 255), plain 3 2 (255, 0, 0)])) = 2"
  by (simp_all add: example_placements right_edge_def bottom_edge_def img_size_plain)

lemma example_covers:
  "covers ((0, 0), plain 3 2 v) r c = (r < 2 \<and> c < 3)"
  "covers ((3, 0), plain 2 2 v) r c = (r < 2 \<and> 3 \<le> c \<and> c < 5)"
  by (auto simp add: covers_def in_slice_def img_size_plain)

section \<open>Claims about the poster normalizer\<close>

text \<open>
  C1. For two retained posters the ratio of the final areas is the ratio of the weights,
  up to the rounding of pixel dimensions.

  The code does not do this when the posters differ in aspect ratio. Two posters of equal
  weight and equal area 16, one of 4 by 4 and one of 8 by 2, get the ratio 1 each; the
  first stays 4 by 4 and the second becomes 32 by 8, sixteen times the area. Every number
  of this run is a small integer, so no operation rounds.
\<close>

theorem equal_weights_unequal_areas:
  "normalize_posters nearest [(1, plain 4 4 (0, 0, 0)), (1, plain 8 2 (0, 0, 0))] =
     Inr [resize nearest (4, 4) (plain 4 4 (0, 0, 0)),
          resize nearest (32, 8) (plain 8 2 (0, 0, 0))] \<and>
   area (resize nearest (4, 4) (plain 4 4 (0, 0, 0))) = 16 \<and>
   area (resize nearest (32, 8) (plain 8 2 (0, 0, 0))) = 256"
  by (simp add: unequal_aspect_example area_def img_size_resize)




text \<open>
  C7. \<^verbatim>\<open>resize_width_w_constant_aspect\<close> returns \<^verbatim>\<open>None\<close> exactly when one of the two
  computed dimensions is below one pixel, \<^verbatim>\<open>normalize_posters\<close> then goes on with the
  next poster without raising, and when both computed dimensions are at least one the
  resized poster has positive integer dimensions.

  The computed dimensions are the doubles \<open>width_of\<close> and \<open>height_of\<close>. The result is
  \<^verbatim>\<open>None\<close> exactly when the guard fails; for finite dimensions that is when one is
  below 1, and otherwise the poster is resized to their truncations, both at least 1. In
  the loop a dropped poster changes nothing. Whenever \<^verbatim>\<open>normalize_posters\<close> returns, its
  result is the concatenation of \<open>poster_rectangles\<close> over the input, every rectangle with
  positive dimensions; and it does return that list whenever all computed dimensions are
  finite.
\<close>

theorem dropped_iff_below_one_pixel:
  "(resize_width_w_constant_aspect filt ratio img = Inr None \<longleftrightarrow>
      \<not> (ge_one (height_of ratio img) \<and> ge_one (width_of ratio img))) \<and>
   (width_of ratio img = Finite w \<and> height_of ratio img = Finite h \<longrightarrow>
      (resize_width_w_constant_aspect filt ratio img = Inr None \<longleftrightarrow> w < 1 \<or> h < 1) \<and>
      (1 \<le> w \<and> 1 \<le> h \<longrightarrow>
         resize_width_w_constant_aspect filt ratio img =
           Inr (Some (resize filt (nat \<lfloor>h\<rfloor>, nat \<lfloor>w\<rfloor>) img)) \<and>
         1 \<le> nat \<lfloor>h\<rfloor> \<and> 1 \<le> nat \<lfloor>w\<rfloor>)) \<and>
   (poster_ratio max_area max_time (time, img) = Inr ratio \<and>
    resize_width_w_constant_aspect filt ratio img = Inr None \<longrightarrow>
      normalize_loop filt max_area max_time ((time, img) # rest) acc =
        normalize_loop filt max_area max_time rest acc) \<and>
   (normalize_posters filt time_posters = Inr ps \<longrightarrow>
      (\<exists>mt ma. py_max (map fst time_posters) = Inr mt \<and>
         py_max (map (\<lambda>(_, x). fst (img_size x) * snd (img_size x)) time_posters) = Inr ma \<and>
         ps = concat (map (poster_rectangles filt ma mt) time_posters)) \<and>
      (\<forall>r \<in> set ps. 1 \<le> fst (img_size r) \<and> 1 \<le> snd (img_size r))) \<and>
   (py_max (map fst time_posters) = Inr max_time \<and>
    py_max (map (\<lambda>(_, x). fst (img_size x) * snd (img_size x)) time_posters) = Inr max_area \<and>
    (\<forall>p \<in> set time_posters. \<exists>ratio w h.
        poster_ratio max_area max_time p = Inr ratio \<and>
        width_of ratio (snd p) = Finite w \<and> height_of ratio (snd p) = Finite h) \<longrightarrow>
      normalize_posters filt time_posters =
        Inr (concat (map (poster_rectangles filt max_area max_time) time_posters)))"
proof (intro conjI impI)
  show "resize_width_w_constant_aspect filt ratio img = Inr None \<longleftrightarrow>
      \<not> (ge_one (height_of ratio img) \<and> ge_one (width_of ratio img))"
    by (rule resize_None_iff)
next
  assume "width_of ratio img = Finite w \<and> height_of ratio img = Finite h"
  then show "resize_width_w_constant_aspect filt ratio img = Inr None \<longleftrightarrow> w < 1 \<or> h < 1"
    by (auto simp add: resize_None_iff)
next
  assume a: "width_of ratio img = Finite w \<and> height_of ratio img = Finite h"
    and b: "1 \<le> w \<and> 1 \<le> h"
  from a b show "resize_width_w_constant_aspect filt ratio img =
           Inr (Some (resize filt (nat \<lfloor>h\<rfloor>, nat \<lfloor>w\<rfloor>) img))"
    by (simp add: resize_retained)
  from b show "1 \<le> nat \<lfloor>h\<rfloor>" "1 \<le> nat \<lfloor>w\<rfloor>"
    using nat_floor_ge1[of h] nat_floor_ge1[of w] by simp_all
next
  assume "poster_ratio max_area max_time (time, img) = Inr ratio \<and>
    resize_width_w_constant_aspect filt ratio img = Inr None"
  then show "normalize_loop filt max_area max_time ((time, img) # rest) acc =
        normalize_loop filt max_area max_time rest acc"
    by simp
next
  assume n: "normalize_posters filt time_posters = Inr ps"
  then obtain mt ma where mt: "py_max (map fst time_posters) = Inr mt"
    and ma: "py_max (map (\<lambda>(_, x). fst (img_size x) * snd (img_size x)) time_posters) = Inr ma"
    and l: "normalize_loop filt ma mt time_posters [] = Inr ps"
    by (auto simp add: normalize_posters_def split: sum.splits)
  from normalize_loop_concat[OF l]
  have ps: "ps = concat (map (poster_rectangles filt ma mt) time_posters)" by simp
  with mt ma show "\<exists>mt ma. py_max (map fst time_posters) = Inr mt \<and>
         py_max (map (\<lambda>(_, x). fst (img_size x) * snd (img_size x)) time_posters) = Inr ma \<and>
         ps = concat (map (poster_rectangles filt ma mt) time_posters)"
    by blast
  show "\<forall>r \<in> set ps. 1 \<le> fst (img_size r) \<and> 1 \<le> snd (img_size r)"
    using ps poster_rectangles_positive by auto
next
  assume "py_max (map fst time_posters) = Inr max_time \<and>
    py_max (map (\<lambda>(_, x). fst (img_size x) * snd (img_size x)) time_posters) = Inr max_area \<and>
    (\<forall>p \<in> set time_posters. \<exists>ratio w h.
        poster_ratio max_area max_time p = Inr ratio \<and>
        width_of ratio (snd p) = Finite w \<and> height_of ratio (snd p) = Finite h)"
  then show "normalize_posters filt time_posters =
        Inr (concat (map (poster_rectangles filt max_area max_time) time_posters))"
    using normalize_loop_returns[of time_posters max_area max_time filt "[]"]
    by (simp add: normalize_posters_def)
qed

text \<open>
  Three runs. With times 49 and 1 on posters of 7 by 7 and 2 by 2 the small poster has a
  ratio just below one quarter and computed dimensions just below 1: it is dropped and the
  normalizer returns the large poster alone. With a ratio just below one ninth a poster of
  3 by 3 has computed dimensions of exactly 1 and is kept.
\<close>

theorem dropped_iff_below_one_pixel_witness:
  "width_of (Finite (9007199254740991 / 2 ^ 55)) (plain 2 2 (0, 0, 0)) =
     Finite (9007199254740991 / 2 ^ 53) \<and>
   height_of (Finite (9007199254740991 / 2 ^ 55)) (plain 2 2 (0, 0, 0)) =
     Finite (9007199254740991 / 2 ^ 53) \<and>
   (9007199254740991 / 2 ^ 53 :: real) < 1 \<and>
   resize_width_w_constant_aspect nearest (Finite (9007199254740991 / 2 ^ 55))
       (plain 2 2 (0, 0, 0)) = Inr None \<and>
   poster_ratio 49 49 (1, plain 2 2 (0, 0, 0)) = Inr (Finite (9007199254740991 / 2 ^ 55)) \<and>
   normalize_loop nearest 49 49 [(1, plain 2 2 (0, 0, 0))]
       [resize nearest (7, 7) (plain 7 7 (0, 0, 0))] =
     Inr [resize nearest (7, 7) (plain 7 7 (0, 0, 0))] \<and>
   normalize_posters nearest [(49, plain 7 7 (0, 0, 0)), (1, plain 2 2 (0, 0, 0))] =
     Inr [resize nearest (7, 7) (plain 7 7 (0, 0, 0))] \<and>
   concat (map (poster_rectangles nearest 49 49)
       [(49, plain 7 7 (0, 0, 0)), (1, plain 2 2 (0, 0, 0))]) =
     [resize nearest (7, 7) (plain 7 7 (0, 0, 0))] \<and>
   width_of (Finite (2001599834386887 / 2 ^ 54)) (plain 3 3 (0, 0, 0)) = Finite 1 \<and>
   height_of (Finite (2001599834386887 / 2 ^ 54)) (plain 3 3 (0, 0, 0)) = Finite 1 \<and>
   resize_width_w_constant_aspect nearest (Finite (2001599834386887 / 2 ^ 54))
       (plain 3 3 (0, 0, 0)) =
     Inr (Some (resize nearest (1, 1) (plain 3 3 (0, 0, 0))))"
proof -
  let ?b = "(0, 0, 0) :: rgb"
  let ?q = "Finite (9007199254740991 / 2 ^ 55)"
  let ?n = "Finite (2001599834386887 / 2 ^ 54)"
  let ?tps = "[(49 :: int, plain 7 7 ?b), (1, plain 2 2 ?b)]"
  let ?ps = "[resize nearest (7, 7) (plain 7 7 ?b)]"
  note qw = quarter_width_of[of ?b] and qh = quarter_height_of[of ?b]
    and qr = quarter_poster_ratio[of ?b] and qe = quarter_example[of nearest ?b]
    and nw = ninth_width_of[of ?b] and nh = ninth_height_of[of ?b]
  have small: "(9007199254740991 / 2 ^ 53 :: real) < 1" by simp
  note dropped = dropped_iff_below_one_pixel[of nearest ?q "plain 2 2 ?b"
      "9007199254740991 / 2 ^ 53" "9007199254740991 / 2 ^ 53" 49 49 1 "[]" ?ps ?tps ?ps]
  note kept = dropped_iff_below_one_pixel[of nearest ?n "plain 3 3 ?b" 1 1]
  from dropped qw qh small
  have d: "resize_width_w_constant_aspect nearest ?q (plain 2 2 ?b) = Inr None"
    by blast
  from dropped d qr
  have l: "normalize_loop nearest 49 49 [(1, plain 2 2 ?b)] ?ps = Inr ?ps"
    by simp
  from dropped qe
  have "\<exists>mt ma. py_max (map fst ?tps) = Inr mt \<and>
         py_max (map (\<lambda>(_, x). fst (img_size x) * snd (img_size x)) ?tps) = Inr ma \<and>
         ?ps = concat (map (poster_rectangles nearest ma mt) ?tps)"
    by blast
  then have c: "concat (map (poster_rectangles nearest 49 49) ?tps) = ?ps"
    by (simp add: img_size_plain)
  from kept nw nh
  have k: "resize_width_w_constant_aspect nearest ?n (plain 3 3 ?b) =
     Inr (Some (resize nearest (nat \<lfloor>1::real\<rfloor>, nat \<lfloor>1::real\<rfloor>) (plain 3 3 ?b)))"
    by simp
  show ?thesis
    using qw qh small d qr l qe c nw nh k
    by (simp only: simp_thms floor_one nat_1 One_nat_def[symmetric])
qed

text \<open>
  C8. The final width of a retained poster is \<open>round (t * original_width)\<close> with
  \<open>t = sqrt targetAreaRatio\<close>; in the worked example (weights 10 and 5, sizes 100 by 100
  and 50 by 50) the second poster becomes 71 by 71.

  The code converts with \<^verbatim>\<open>int\<close>, which truncates: the second poster of the example
  becomes 70 by 70, where rounding \<open>sqrt 2 * 50\<close> would give 71.
\<close>

theorem spec_example_truncated:
  "normalize_posters nearest [(10, plain 100 100 (0, 0, 0)), (5, plain 50 50 (0, 0, 0))] =
     Inr [resize nearest (100, 100) (plain 100 100 (0, 0, 0)),
          resize nearest (70, 70) (plain 50 50 (0, 0, 0))] \<and>
   round (sqrt 2 * real 50) = 71 \<and>
   img_size (resize nearest (70, 70) (plain 50 50 (0, 0, 0))) \<noteq> (71, 71)"
proof -
  have "round (sqrt 2 * real 50) = 71"
    using sqrt2_bounds by (simp add: round_def floor_eq_iff)
  then show ?thesis by (simp add: spec_example_sizes img_size_resize)
qed

text \<open>
  C8 as amended: for a retained poster, the double the code computes for
  \<open>t * original_width\<close> is truncated, not rounded, and the truncation is one of the two
  final pixel dimensions; in the worked example the posters become 100 by 100 and 70 by 70.
\<close>

theorem resize_truncates:
  assumes "resize_width_w_constant_aspect filt ratio img = Inr (Some r)"
  shows "(\<exists>w. fmul (np_sqrt ratio) (float_of_nat (fst (img_size img))) = Finite w \<and>
              \<lfloor>w\<rfloor> \<in> {int (fst (img_size r)), int (snd (img_size r))}) \<and>
         normalize_posters filt [(10, plain 100 100 v), (5, plain 50 50 v)] =
           Inr [resize filt (100, 100) (plain 100 100 v), resize filt (70, 70) (plain 50 50 v)]"
proof -
  from resize_SomeD[OF assms] obtain w and h :: real where
    wf: "width_of ratio img = Finite w" and w1: "1 \<le> w"
    and r: "img_size r = (nat \<lfloor>h\<rfloor>, nat \<lfloor>w\<rfloor>)"
    by (auto simp add: img_size_resize)
  from w1 have "int (nat \<lfloor>w\<rfloor>) = \<lfloor>w\<rfloor>" by simp
  with wf r have "\<exists>w. fmul (np_sqrt ratio) (float_of_nat (fst (img_size img))) = Finite w \<and>
              \<lfloor>w\<rfloor> \<in> {int (fst (img_size r)), int (snd (img_size r))}"
    by (auto simp add: width_of_def)
  then show ?thesis by (simp add: spec_example_sizes)
qed

text \<open>
  For a ratio just below four ninths and a poster of 3 by 3 the computed product is
  exactly 2, and the poster becomes 2 by 2.
\<close>

theorem resize_truncates_witness:
  "resize_width_w_constant_aspect nearest (Finite (2001599834386887 / 2 ^ 52)) (plain 3 3 (0, 0, 0)) =
     Inr (Some (resize nearest (2, 2) (plain 3 3 (0, 0, 0)))) \<and>
   fmul (np_sqrt (Finite (2001599834386887 / 2 ^ 52))) (float_of_nat (fst (img_size (plain 3 3 (0, 0, 0))))) =
     Finite 2 \<and>
   \<lfloor>2 :: real\<rfloor> = int (snd (img_size (resize nearest (2, 2) (plain 3 3 (0, 0, 0)))))"
proof -
  have k: "resize_width_w_constant_aspect nearest (Finite (2001599834386887 / 2 ^ 52)) (plain 3 3 (0, 0, 0)) =
     Inr (Some (resize nearest (2, 2) (plain 3 3 (0, 0, 0))))"
    using resize_retained[OF four_ninths_width_of four_ninths_height_of, where filt = nearest]
    by simp
  have w: "fmul (np_sqrt (Finite (2001599834386887 / 2 ^ 52))) (float_of_nat (fst (img_size (plain 3 3 (0, 0, 0))))) =
     Finite 2"
    using four_ninths_width_of[of "(0, 0, 0)"] by (simp only: width_of_def)
  from resize_truncates[OF k] w k show ?thesis
    by (simp add: img_size_resize)
qed

text \<open>
  C4. On an empty input, or when every poster is dropped, the pipeline handles the case as
  an empty canvas and produces an output instead of failing on a maximum of nothing.

  The code has no such case. On the empty list \<^verbatim>\<open>normalize_posters\<close> raises
  \<^verbatim>\<open>ValueError\<close> at its first \<^verbatim>\<open>max\<close>, and so does the pipeline.
\<close>

theorem empty_input_counterexample:
  "draw nearest row_pack smear [] 100 5 = Inl ValueError"
  by (simp add: draw_def normalize_posters_def)

text \<open>
  C4 as amended: on an empty list of weighted posters \<^verbatim>\<open>normalize_posters\<close> raises
  \<^verbatim>\<open>ValueError\<close>; on an empty list of normalized posters \<^verbatim>\<open>arrange_images\<close> raises
  \<^verbatim>\<open>ValueError\<close>, whatever the packer returns; no canvas is produced.
\<close>

theorem empty_input_raises:
  "normalize_posters filt [] = Inl ValueError \<and>
   arrange_images pack GaussianBlur [] blur_factor blur_radius = Inl ValueError \<and>
   draw filt pack GaussianBlur [] blur_factor blur_radius = Inl ValueError"
  by (simp add: normalize_posters_def draw_def arrange_images_def composite_empty placements_def
        sorted_posters_def sorted_reverse_def)

section \<open>Claims about the compositor and the diffuser\<close>

text \<open>
  C5. For a non-empty list of placed rectangles the canvas that \<^verbatim>\<open>arrange_images\<close>
  allocates is \<open>1 + max (x + width)\<close> wide and \<open>1 + max (y + height)\<close> high, and white
  everywhere. The canvas that \<^verbatim>\<open>arrange_images\<close> returns has the same size.
\<close>

theorem canvas_bounds:
  assumes "placements pack posters \<noteq> []"
  shows "\<exists>canvas final.
     blank_canvas pack posters = Inr canvas \<and>
     cols canvas = 1 + Max (right_edge ` set (placements pack posters)) \<and>
     rows canvas = 1 + Max (bottom_edge ` set (placements pack posters)) \<and>
     (\<forall>r c. cell canvas r c = (255, 255, 255)) \<and>
     arrange_images pack GaussianBlur posters blur_factor blur_radius = Inr final \<and>
     cols final = cols canvas \<and> rows final = rows canvas"
proof -
  obtain collage deadspace where cd: "composite pack posters = Inr (collage, deadspace)"
    and sh: "rows collage = Max (bottom_edge ` set (placements pack posters)) + 1"
            "cols collage = Max (right_edge ` set (placements pack posters)) + 1"
    using composite_props[OF assms] by blast
  have "arrange_images pack GaussianBlur posters blur_factor blur_radius =
          Inr (diffuse (GaussianBlur blur_radius) (np_where deadspace) (nat blur_factor) collage)"
    by (simp add: arrange_images_def cd)
  then show ?thesis
    using sh by (simp add: blank_canvas_nonempty[OF assms] diffuse_shape full_def)
qed

theorem canvas_bounds_witness:
  "placements row_pack [plain 2 2 (0, 0, 255), plain 3 2 (255, 0, 0)] \<noteq> [] \<and>
   (\<exists>canvas final.
      blank_canvas row_pack [plain 2 2 (0, 0, 255), plain 3 2 (255, 0, 0)] = Inr canvas \<and>
      cols canvas = 6 \<and> rows canvas = 3 \<and> cell canvas 2 5 = (255, 255, 255) \<and>
      arrange_images row_pack smear [plain 2 2 (0, 0, 255), plain 3 2 (255, 0, 0)] 3 1 = Inr final \<and>
      cols final = 6 \<and> rows final = 3)"
proof -
  have ne: "placements row_pack [plain 2 2 (0, 0, 255), plain 3 2 (255, 0, 0)] \<noteq> []"
    by (simp add: example_placements)
  from canvas_bounds[OF ne, of smear 3 1] ne show ?thesis
    by (simp only: example_edges) auto
qed

text \<open>
  C6. After compositing and before any diffusion, the deadspace mask is true at a position
  of the canvas exactly when no placed rectangle covers the position.
\<close>

theorem deadspace_mask:
  assumes "placements pack posters \<noteq> []"
  shows "\<exists>collage deadspace.
     composite pack posters = Inr (collage, deadspace) \<and>
     rows deadspace = rows collage \<and> cols deadspace = cols collage \<and>
     (\<forall>r c. r < rows collage \<and> c < cols collage \<longrightarrow>
        (np_where deadspace r c \<longleftrightarrow> (\<forall>p \<in> set (placements pack posters). \<not> covers p r c)))"
proof -
  obtain collage deadspace where cd: "composite pack posters = Inr (collage, deadspace)"
    and sh: "rows deadspace = rows collage" "cols deadspace = cols collage"
    and mask: "\<forall>r c. cell deadspace r c = (\<forall>p \<in> set (placements pack posters). \<not> covers p r c)"
    using composite_props[OF assms] by blast
  show ?thesis using cd sh mask by (simp add: np_where_def)
qed

theorem deadspace_mask_witness:
  "placements row_pack [plain 2 2 (0, 0, 255), plain 3 2 (255, 0, 0)] \<noteq> [] \<and>
   (\<exists>collage deadspace.
      composite row_pack [plain 2 2 (0, 0, 255), plain 3 2 (255, 0, 0)] = Inr (collage, deadspace) \<and>
      1 < rows collage \<and> 5 < cols collage \<and>
      np_where deadspace 1 5 \<and> \<not> np_where deadspace 1 4 \<and> \<not> np_where deadspace 0 2)"
proof -
  have ne: "placements row_pack [plain 2 2 (0, 0, 255), plain 3 2 (255, 0, 0)] \<noteq> []"
    by (simp add: example_placements)
  obtain collage deadspace where
    cd: "composite row_pack [plain 2 2 (0, 0, 255), plain 3 2 (255, 0, 0)] = Inr (collage, deadspace)"
    and sh: "rows collage = 3" "cols collage = 6"
    using composite_props[OF ne] by (auto simp add: example_edges)
  from deadspace_mask[OF ne] cd sh ne show ?thesis
    by (simp add: example_placements example_covers)
qed

text \<open>
  C3. Whatever the blur factor and the blur radius, after the diffusion every position
  inside a placed rectangle holds the pixel the compositor copied there; only positions of
  the deadspace mask are overwritten; the mask is computed once, from the placement, and
  each pass uses it unchanged.

  The returned canvas is the composited one after \<open>nat blur_factor\<close> passes of
  \<open>diffuse_step\<close> under one mask. Outside the mask it agrees with the composited canvas.
  A covered position holds the pixel of the last rectangle placed over it, which is the
  only such rectangle when the packer's rectangles do not overlap.
\<close>

theorem diffusion_keeps_rectangles:
  assumes "placements pack posters \<noteq> []"
  shows "\<exists>collage deadspace final.
     composite pack posters = Inr (collage, deadspace) \<and>
     arrange_images pack GaussianBlur posters blur_factor blur_radius = Inr final \<and>
     final = ((diffuse_step (GaussianBlur blur_radius) (np_where deadspace)) ^^ nat blur_factor) collage \<and>
     (\<forall>r c. \<not> np_where deadspace r c \<longrightarrow> cell final r c = cell collage r c) \<and>
     (\<forall>r c. (\<exists>p \<in> set (placements pack posters). covers p r c) \<longrightarrow>
        \<not> np_where deadspace r c \<and>
        cell final r c =
          source_pixel (last (filter (\<lambda>p. covers p r c) (placements pack posters))) r c) \<and>
     (\<forall>p \<in> set (placements pack posters). \<forall>r c.
        covers p r c \<and> (\<forall>q \<in> set (placements pack posters). covers q r c \<longrightarrow> q = p) \<longrightarrow>
        cell final r c = source_pixel p r c)"
proof -
  let ?ps = "placements pack posters"
  obtain collage deadspace where cd: "composite pack posters = Inr (collage, deadspace)"
    and mask: "\<And>r c. cell deadspace r c = (\<forall>p \<in> set ?ps. \<not> covers p r c)"
    and px: "\<And>r c. cell collage r c =
        (if filter (\<lambda>p. covers p r c) ?ps = [] then (255, 255, 255)
         else source_pixel (last (filter (\<lambda>p. covers p r c) ?ps)) r c)"
    using composite_props[OF assms] by blast
  let ?final = "diffuse (GaussianBlur blur_radius) (np_where deadspace) (nat blur_factor) collage"
  have fin: "arrange_images pack GaussianBlur posters blur_factor blur_radius = Inr ?final"
    by (simp add: arrange_images_def cd)
  have keep: "\<not> np_where deadspace r c \<Longrightarrow> cell ?final r c = cell collage r c" for r c
    by (rule diffuse_keeps)
  have cov: "\<exists>p \<in> set ?ps. covers p r c \<Longrightarrow>
        \<not> np_where deadspace r c \<and>
        cell ?final r c = source_pixel (last (filter (\<lambda>p. covers p r c) ?ps)) r c" for r c
  proof -
    assume e: "\<exists>p \<in> set ?ps. covers p r c"
    then have nd: "\<not> np_where deadspace r c" by (simp add: np_where_def mask)
    from e have "filter (\<lambda>p. covers p r c) ?ps \<noteq> []" by (simp add: filter_empty_conv)
    with px[of r c] keep[OF nd] nd show ?thesis by simp
  qed
  have only: "cell ?final r c = source_pixel p r c"
    if "p \<in> set ?ps" "covers p r c" "\<forall>q \<in> set ?ps. covers q r c \<longrightarrow> q = p" for p r c
  proof -
    have ne: "filter (\<lambda>p. covers p r c) ?ps \<noteq> []" using that(1,2) by (auto simp add: filter_empty_conv)
    then have "last (filter (\<lambda>p. covers p r c) ?ps) \<in> set (filter (\<lambda>p. covers p r c) ?ps)"
      by (rule last_in_set)
    then have "last (filter (\<lambda>p. covers p r c) ?ps) = p" using that(3) by simp
    with cov[of r c] that(1,2) show ?thesis by auto
  qed
  show ?thesis
  proof (intro exI conjI)
    show "composite pack posters = Inr (collage, deadspace)" by (rule cd)
    show "arrange_images pack GaussianBlur posters blur_factor blur_radius = Inr ?final" by (rule fin)
    show "?final = ((diffuse_step (GaussianBlur blur_radius) (np_where deadspace)) ^^ nat blur_factor) collage"
      by (rule diffuse_funpow)
    show "\<forall>r c. \<not> np_where deadspace r c \<longrightarrow> cell ?final r c = cell collage r c"
      using keep by blast
    show "\<forall>r c. (\<exists>p \<in> set ?ps. covers p r c) \<longrightarrow>
        \<not> np_where deadspace r c \<and>
        cell ?final r c = source_pixel (last (filter (\<lambda>p. covers p r c) ?ps)) r c"
      using cov by blast
    show "\<forall>p \<in> set ?ps. \<forall>r c.
        covers p r c \<and> (\<forall>q \<in> set ?ps. covers q r c \<longrightarrow> q = p) \<longrightarrow>
        cell ?final r c = source_pixel p r c"
      using only by blast
  qed
qed

text \<open>
  In the two-poster collage, after one pass of the smearing blur: the positions inside the
  two posters keep red and blue, while the deadspace position right of the blue poster
  has turned blue.
\<close>

theorem diffusion_keeps_rectangles_witness:
  "placements row_pack [plain 2 2 (0, 0, 255), plain 3 2 (255, 0, 0)] \<noteq> [] \<and>
   (\<exists>collage deadspace final.
      composite row_pack [plain 2 2 (0, 0, 255), plain 3 2 (255, 0, 0)] = Inr (collage, deadspace) \<and>
      arrange_images row_pack smear [plain 2 2 (0, 0, 255), plain 3 2 (255, 0, 0)] 1 1 = Inr final \<and>
      covers ((3, 0), plain 2 2 (0, 0, 255)) 1 4 \<and> \<not> np_where deadspace 1 4 \<and>
      cell final 1 4 = (0, 0, 255) \<and> cell final 0 2 = (255, 0, 0) \<and>
      np_where deadspace 1 5 \<and> cell collage 1 5 = (255, 255, 255) \<and>
      cell final 1 5 = (0, 0, 255))"
proof -
  let ?posters = "[plain 2 2 (0, 0, 255), plain 3 2 (255, 0, 0)]"
  have ne: "placements row_pack ?posters \<noteq> []"
    by (simp add: example_placements)
  from diffusion_keeps_rectangles[OF ne, of smear 1 1]
  obtain collage deadspace final where
    cd: "composite row_pack ?posters = Inr (collage, deadspace)"
    and fin: "arrange_images row_pack smear ?posters 1 1 = Inr final"
    and pass: "final = ((diffuse_step (smear 1) (np_where deadspace)) ^^ nat 1) collage"
    and keep: "\<forall>r c. \<not> np_where deadspace r c \<longrightarrow> cell final r c = cell collage r c"
    and cov: "\<forall>r c. (\<exists>p \<in> set (placements row_pack ?posters). covers p r c) \<longrightarrow>
        \<not> np_where deadspace r c \<and>
        cell final r c =
          source_pixel (last (filter (\<lambda>p. covers p r c) (placements row_pack ?posters))) r c"
    by blast
  from composite_props[OF ne] cd have sh: "rows deadspace = 3" "cols deadspace = 6"
    and mask: "\<forall>r c. cell deadspace r c =
       (\<forall>p \<in> set (placements row_pack ?posters). \<not> covers p r c)"
    and px: "\<forall>r c. cell collage r c =
        (if filter (\<lambda>p. covers p r c) (placements row_pack ?posters) = [] then (255, 255, 255)
         else source_pixel (last (filter (\<lambda>p. covers p r c) (placements row_pack ?posters))) r c)"
    by (auto simp add: example_edges)
  have a: "\<not> np_where deadspace 1 4 \<and> cell final 1 4 = (0, 0, 255)"
    using cov[rule_format, of 1 4]
    by (simp add: example_placements example_covers source_pixel_def pixels_plain)
  have b: "cell final 0 2 = (255, 0, 0)"
    using cov[rule_format, of 0 2]
    by (simp add: example_placements example_covers source_pixel_def pixels_plain)
  have d: "np_where deadspace 1 5"
    by (simp add: np_where_def sh mask example_placements example_covers)
  have w: "cell collage 1 5 = (255, 255, 255)"
    using px[rule_format, of 1 5] by (simp add: example_placements example_covers)
  from a keep have "cell collage 1 4 = (0, 0, 255)" by metis
  then have e: "cell final 1 5 = (0, 0, 255)"
    using d by (simp add: pass diffuse_step_cell smear_def)
  show ?thesis using ne cd fin a b d w e by (simp add: example_covers)
qed

text \<open>
  C9. With a blur factor of zero the canvas that \<^verbatim>\<open>arrange_images\<close> returns is the
  composited canvas, and every deadspace position is white.
\<close>

theorem blur_factor_zero:
  "arrange_images pack GaussianBlur posters 0 blur_radius = map_sum id fst (composite pack posters) \<and>
   (\<forall>collage deadspace r c.
      composite pack posters = Inr (collage, deadspace) \<and> np_where deadspace r c \<longrightarrow>
      arrange_images pack GaussianBlur posters 0 blur_radius = Inr collage \<and>
      cell collage r c = (255, 255, 255))"
proof (intro conjI allI impI)
  show "arrange_images pack GaussianBlur posters 0 blur_radius = map_sum id fst (composite pack posters)"
    by (simp add: arrange_images_def split: sum.splits prod.splits)
next
  fix collage deadspace r c
  assume a: "composite pack posters = Inr (collage, deadspace) \<and> np_where deadspace r c"
  then show "arrange_images pack GaussianBlur posters 0 blur_radius = Inr collage"
    by (simp add: arrange_images_def)
  from a have ne: "placements pack posters \<noteq> []"
    using composite_empty[of pack posters] by auto
  from composite_props[OF ne] a show "cell collage r c = (255, 255, 255)"
    by (auto simp add: np_where_def filter_empty_conv)
qed

theorem blur_factor_zero_witness:
  "\<exists>collage deadspace.
     composite row_pack [plain 2 2 (0, 0, 255), plain 3 2 (255, 0, 0)] = Inr (collage, deadspace) \<and>
     np_where deadspace 1 5 \<and>
     arrange_images row_pack smear [plain 2 2 (0, 0, 255), plain 3 2 (255, 0, 0)] 0 1 = Inr collage \<and>
     cell collage 1 5 = (255, 255, 255)"
proof -
  have ne: "placements row_pack [plain 2 2 (0, 0, 255), plain 3 2 (255, 0, 0)] \<noteq> []"
    by (simp add: example_placements)
  obtain collage deadspace where
    cd: "composite row_pack [plain 2 2 (0, 0, 255), plain 3 2 (255, 0, 0)] = Inr (collage, deadspace)"
    and sh: "rows deadspace = 3" "cols deadspace = 6"
    and mask: "\<forall>r c. cell deadspace r c =
       (\<forall>p \<in> set (placements row_pack [plain 2 2 (0, 0, 255), plain 3 2 (255, 0, 0)]). \<not> covers p r c)"
    using composite_props[OF ne] by (auto simp add: example_edges)
  have dead: "np_where deadspace 1 5"
    by (simp add: np_where_def sh mask example_placements example_covers)
  from blur_factor_zero[of row_pack smear "[plain 2 2 (0, 0, 255), plain 3 2 (255, 0, 0)]" 1] cd dead
  show ?thesis by blast
qed

text \<open>
  C10. The packer receives the sizes of the posters sorted by area, largest first, and
  posters of equal area keep the order in which they were given.

  The placements are the sorted posters zipped with the packer's positions for their sizes,
  and the packer is applied to nothing else. When there is no placement
  \<^verbatim>\<open>arrange_images\<close> raises; otherwise the canvas it returns has the size these
  placements give and shows, at every covered position, the pixel of the last of these
  placements over it. The sorted list is a rearrangement of the given one, non-increasing in
  area, and for each area the posters of that area are in their given order.
\<close>

theorem packer_input_sorted:
  "placements pack posters =
     zip (pack (map img_size (sorted_posters posters))) (sorted_posters posters) \<and>
   arrange_images pack GaussianBlur posters blur_factor blur_radius =
     arrange_images (\<lambda>_. pack (map img_size (sorted_posters posters))) GaussianBlur posters
       blur_factor blur_radius \<and>
   (zip (pack (map img_size (sorted_posters posters))) (sorted_posters posters) = [] \<longrightarrow>
      arrange_images pack GaussianBlur posters blur_factor blur_radius = Inl ValueError) \<and>
   (zip (pack (map img_size (sorted_posters posters))) (sorted_posters posters) \<noteq> [] \<longrightarrow>
      (\<exists>final.
         arrange_images pack GaussianBlur posters blur_factor blur_radius = Inr final \<and>
         cols final = 1 + Max (right_edge `
           set (zip (pack (map img_size (sorted_posters posters))) (sorted_posters posters))) \<and>
         rows final = 1 + Max (bottom_edge `
           set (zip (pack (map img_size (sorted_posters posters))) (sorted_posters posters))) \<and>
         (\<forall>r c.
            (\<exists>p \<in> set (zip (pack (map img_size (sorted_posters posters)))
                           (sorted_posters posters)). covers p r c) \<longrightarrow>
            cell final r c =
              source_pixel
                (last (filter (\<lambda>p. covers p r c)
                   (zip (pack (map img_size (sorted_posters posters)))
                        (sorted_posters posters)))) r c))) \<and>
   sorted_wrt (\<lambda>a b. area a \<ge> area b) (sorted_posters posters) \<and>
   mset (sorted_posters posters) = mset posters \<and>
   (\<forall>k. filter (\<lambda>x. area x = k) (sorted_posters posters) = filter (\<lambda>x. area x = k) posters)"
proof -
  let ?ps = "zip (pack (map img_size (sorted_posters posters))) (sorted_posters posters)"
  have pl: "placements pack posters = ?ps" by (simp add: placements_def Let_def)
  have only: "arrange_images pack GaussianBlur posters blur_factor blur_radius =
     arrange_images (\<lambda>_. pack (map img_size (sorted_posters posters))) GaussianBlur posters
       blur_factor blur_radius"
    by (simp only: arrange_images_def composite_only_sorted)
  have empty: "arrange_images pack GaussianBlur posters blur_factor blur_radius = Inl ValueError"
    if "?ps = []"
    using that composite_empty[of pack posters] by (simp add: arrange_images_def pl)
  have full: "\<exists>final.
         arrange_images pack GaussianBlur posters blur_factor blur_radius = Inr final \<and>
         cols final = 1 + Max (right_edge ` set ?ps) \<and>
         rows final = 1 + Max (bottom_edge ` set ?ps) \<and>
         (\<forall>r c. (\<exists>p \<in> set ?ps. covers p r c) \<longrightarrow>
            cell final r c = source_pixel (last (filter (\<lambda>p. covers p r c) ?ps)) r c)"
    if ne: "?ps \<noteq> []"
  proof -
    have ne': "placements pack posters \<noteq> []" unfolding pl by (rule ne)
    from composite_props[OF ne'] obtain collage deadspace where
      cd: "composite pack posters = Inr (collage, deadspace)"
      and sh: "rows collage = Max (bottom_edge ` set ?ps) + 1"
              "cols collage = Max (right_edge ` set ?ps) + 1"
      and mask: "\<And>r c. cell deadspace r c = (\<forall>p \<in> set ?ps. \<not> covers p r c)"
      and px: "\<And>r c. cell collage r c =
        (if filter (\<lambda>p. covers p r c) ?ps = [] then (255, 255, 255)
         else source_pixel (last (filter (\<lambda>p. covers p r c) ?ps)) r c)"
      unfolding pl by blast
    let ?final = "diffuse (GaussianBlur blur_radius) (np_where deadspace) (nat blur_factor) collage"
    have fin: "arrange_images pack GaussianBlur posters blur_factor blur_radius = Inr ?final"
      by (simp add: arrange_images_def cd)
    have cov: "cell ?final r c = source_pixel (last (filter (\<lambda>p. covers p r c) ?ps)) r c"
      if e: "\<exists>p \<in> set ?ps. covers p r c" for r c
    proof -
      from e have nd: "\<not> np_where deadspace r c" by (simp add: np_where_def mask)
      from e have "filter (\<lambda>p. covers p r c) ?ps \<noteq> []" by (simp add: filter_empty_conv)
      moreover have "cell ?final r c = cell collage r c" using nd by (rule diffuse_keeps)
      ultimately show ?thesis using px[of r c] by simp
    qed
    show ?thesis
    proof (intro exI conjI)
      show "arrange_images pack GaussianBlur posters blur_factor blur_radius = Inr ?final"
        by (rule fin)
      show "cols ?final = 1 + Max (right_edge ` set ?ps)" by (simp add: diffuse_shape sh)
      show "rows ?final = 1 + Max (bottom_edge ` set ?ps)" by (simp add: diffuse_shape sh)
      show "\<forall>r c. (\<exists>p \<in> set ?ps. covers p r c) \<longrightarrow>
            cell ?final r c = source_pixel (last (filter (\<lambda>p. covers p r c) ?ps)) r c"
        using cov by blast
    qed
  qed
  have sorted_facts:
    "sorted_wrt (\<lambda>a b. area a \<ge> area b) (sorted_posters posters)"
    "mset (sorted_posters posters) = mset posters"
    "\<forall>k. filter (\<lambda>x. area x = k) (sorted_posters posters) = filter (\<lambda>x. area x = k) posters"
    by (simp_all add: sorted_posters_def sorted_reverse_desc sorted_reverse_stable
          sorted_reverse_mset)
  from pl only empty full sorted_facts show ?thesis by blast
qed

text \<open>
  The two-poster collage, given with the smaller poster first: the larger, red one is
  placed first, at the left edge, and the canvas shows it there.
\<close>

theorem packer_input_sorted_witness:
  "sorted_posters [plain 2 2 (0, 0, 255), plain 3 2 (255, 0, 0)] =
     [plain 3 2 (255, 0, 0), plain 2 2 (0, 0, 255)] \<and>
   zip (row_pack (map img_size (sorted_posters [plain 2 2 (0, 0, 255), plain 3 2 (255, 0, 0)])))
       (sorted_posters [plain 2 2 (0, 0, 255), plain 3 2 (255, 0, 0)]) =
     [((0, 0), plain 3 2 (255, 0, 0)), ((3, 0), plain 2 2 (0, 0, 255))] \<and>
   (\<exists>final.
      arrange_images row_pack smear [plain 2 2 (0, 0, 255), plain 3 2 (255, 0, 0)] 1 1 =
        Inr final \<and>
      cols final = 6 \<and> rows final = 3 \<and>
      cell final 0 0 = (255, 0, 0) \<and> cell final 0 3 = (0, 0, 255))"
proof -
  let ?posters = "[plain 2 2 (0, 0, 255), plain 3 2 (255, 0, 0)]"
  let ?ps = "zip (row_pack (map img_size (sorted_posters ?posters))) (sorted_posters ?posters)"
  have so: "sorted_posters ?posters = [plain 3 2 (255, 0, 0), plain 2 2 (0, 0, 255)]"
    by (simp add: sorted_posters_def sorted_reverse_def area_plain)
  have ps: "?ps = [((0, 0), plain 3 2 (255, 0, 0)), ((3, 0), plain 2 2 (0, 0, 255))]"
    using example_placements by (simp add: placements_def Let_def)
  then have ne: "?ps \<noteq> []" by simp
  from packer_input_sorted[of row_pack ?posters smear 1 1] ne
  obtain final where
    fin: "arrange_images row_pack smear ?posters 1 1 = Inr final"
    and co: "cols final = 1 + Max (right_edge ` set ?ps)"
    and ro: "rows final = 1 + Max (bottom_edge ` set ?ps)"
    and cov: "\<forall>r c. (\<exists>p \<in> set ?ps. covers p r c) \<longrightarrow>
            cell final r c = source_pixel (last (filter (\<lambda>p. covers p r c) ?ps)) r c"
    by blast
  have c6: "cols final = 6" and r3: "rows final = 3"
    using co ro by (simp_all add: ps right_edge_def bottom_edge_def img_size_plain)
  have a: "cell final 0 0 = (255, 0, 0)"
    using cov[rule_format, of 0 0]
    by (simp add: ps example_covers source_pixel_def pixels_plain)
  have b: "cell final 0 3 = (0, 0, 255)"
    using cov[rule_format, of 0 3]
    by (simp add: ps example_covers source_pixel_def pixels_plain)
  from so ps fin c6 r3 a b show ?thesis by blast
qed

end
